theory Spec2Isabelle
  imports Main "HOL-Library.Code_Target_Nat"
begin

section \<open>The element type\<close>

text \<open>
  \<^verbatim>\<open>vector.h\<close> is generic in the element type \<open>T\<close> and asks \<open>T\<close> three questions at
  compile time: \<^verbatim>\<open>is_nothrow_move_constructible_v\<close>, \<^verbatim>\<open>is_copy_constructible_v\<close> and
  \<^verbatim>\<open>is_nothrow_copy_constructible_v\<close>; \<^verbatim>\<open>Allocate\<close> uses \<^verbatim>\<open>sizeof(T)\<close>. Every constructor
  and assignment of \<open>T\<close> may throw. An element type is therefore a record of \<^verbatim>\<open>sizeof(T)\<close>,
  of the three traits and of the behaviour of its special members: a constructor or
  assignment either throws, or produces an object equal to its argument; a move leaves
  \<open>moved_from x\<close> in the source. Destructors do not throw.

  The catch clauses of the source are all \<^verbatim>\<open>catch (const std::exception&)\<close>, so an
  exception is tagged with whether it derives from \<^verbatim>\<open>std::exception\<close>.
\<close>

datatype exn = StdException | OtherException

record 'a elem_type =
  sizeof_T :: nat
  nothrow_move_constructible :: bool
  copy_constructible :: bool
  nothrow_copy_constructible :: bool
  copy_throws :: "'a \<Rightarrow> exn option"
  move_throws :: "'a \<Rightarrow> exn option"
  moved_from :: "'a \<Rightarrow> 'a"
  default_ctor :: "exn + 'a"
  copy_assign_throws :: "'a \<Rightarrow> exn option"
  move_assign_throws :: "'a \<Rightarrow> exn option"

text \<open>The result of running \<^verbatim>\<open>T(const T&)\<close> and \<^verbatim>\<open>T(T&&)\<close> on a value.\<close>

definition copy_construct :: "'a elem_type \<Rightarrow> 'a \<Rightarrow> exn + 'a" where
  "copy_construct T x = (case copy_throws T x of Some e \<Rightarrow> Inl e | None \<Rightarrow> Inr x)"

definition move_construct :: "'a elem_type \<Rightarrow> 'a \<Rightarrow> exn + 'a" where
  "move_construct T x = (case move_throws T x of Some e \<Rightarrow> Inl e | None \<Rightarrow> Inr x)"

section \<open>Outcomes\<close>

text \<open>
  A call returns (\<open>Return\<close>, with the state it leaves and its result), throws (\<open>Throw\<close>,
  with the state it leaves), has undefined behaviour (\<open>Undefined\<close>: a read of a slot that
  holds no object, an access outside the block, an invalid range) or, when an exception
  leaves a \<^verbatim>\<open>noexcept\<close> function, calls \<^verbatim>\<open>std::terminate\<close> (\<open>Terminate\<close>).
\<close>

datatype ('s, 'r) outcome = Return 's 'r | Throw 's exn | Undefined | Terminate

text \<open>\<^verbatim>\<open>try { m } catch (const std::exception&) { h }\<close>\<close>

definition catch_std_exception ::
  "('s, unit) outcome \<Rightarrow> ('s \<Rightarrow> ('s, unit) outcome) \<Rightarrow> ('s, unit) outcome" where
  "catch_std_exception m h =
     (case m of
        Throw s e \<Rightarrow> (if e = StdException then h s else Throw s e)
      | other \<Rightarrow> other)"

text \<open>An exception that leaves a \<^verbatim>\<open>noexcept\<close> function.\<close>

definition noexcept :: "('s, 'r) outcome \<Rightarrow> ('s, 'r) outcome" where
  "noexcept m = (case m of Throw s e \<Rightarrow> Terminate | other \<Rightarrow> other)"

section \<open>Raw blocks and the standard algorithms on them\<close>

text \<open>
  A block of raw memory for \<open>n\<close> elements is a list of \<open>n\<close> slots; a slot is \<open>None\<close>
  while it holds no object and \<open>Some x\<close> while an object of value \<open>x\<close> lives in it.
  Pointers into a block are indices. Reading or destroying a slot that holds no object and
  any access outside the block are undefined (\<open>None\<close> here); the \<^verbatim>\<open>assert\<close>s of the source
  guard such accesses and are not modelled separately.

  Sizes and capacities are of type \<^verbatim>\<open>size_t\<close>, 64 bits wide: they are natural numbers
  below \<open>2^64\<close>, and a product computed in \<^verbatim>\<open>size_t\<close> wraps around.
\<close>

type_synonym 'a block = "'a option list"

definition size_t_mul :: "nat \<Rightarrow> nat \<Rightarrow> nat" where
  "size_t_mul a b = nat ((int a * int b) mod 2 ^ 64)"

definition object_at :: "'a block \<Rightarrow> nat \<Rightarrow> 'a option" where
  "object_at b i = (if i < length b then b ! i else None)"

text \<open>Placement new of an object of value \<open>x\<close> at slot \<open>i\<close>.\<close>

definition construct_at :: "'a block \<Rightarrow> nat \<Rightarrow> 'a \<Rightarrow> 'a block option" where
  "construct_at b i x = (if i < length b then Some (b[i := Some x]) else None)"

text \<open>\<^verbatim>\<open>Destroy(buf)\<close>: the destructor call \<^verbatim>\<open>buf->~T()\<close>.\<close>

definition Destroy :: "'a block \<Rightarrow> nat \<Rightarrow> 'a block option" where
  "Destroy b i = (case object_at b i of None \<Rightarrow> None | Some x \<Rightarrow> Some (b[i := None]))"

text \<open>\<^verbatim>\<open>DestroyN(buf, n)\<close> and \<^verbatim>\<open>std::destroy_n(buf, n)\<close>.\<close>

fun DestroyN :: "'a block \<Rightarrow> nat \<Rightarrow> nat \<Rightarrow> 'a block option" where
  "DestroyN b first 0 = Some b"
| "DestroyN b first (Suc n) =
     (case Destroy b first of None \<Rightarrow> None | Some b' \<Rightarrow> DestroyN b' (Suc first) n)"

text \<open>
  \<^verbatim>\<open>std::uninitialized_copy_n(first, n, d_first)\<close> from block \<open>src\<close> into block \<open>dst\<close>:
  copy-constructs one element after the other; when a constructor throws, the objects
  built so far, \<open>[d_first, cur)\<close>, are destroyed and the exception is thrown again. The
  state is the pair of the source and the destination; a copy leaves the source as it is.
\<close>

fun uninitialized_copy_loop ::
  "'a elem_type \<Rightarrow> 'a block \<Rightarrow> nat \<Rightarrow> nat \<Rightarrow> 'a block \<Rightarrow> nat \<Rightarrow> nat
     \<Rightarrow> ('a block \<times> 'a block, unit) outcome" where
  "uninitialized_copy_loop T src first 0 dst d_first cur = Return (src, dst) ()"
| "uninitialized_copy_loop T src first (Suc n) dst d_first cur =
     (case object_at src first of
        None \<Rightarrow> Undefined
      | Some x \<Rightarrow>
          (case copy_throws T x of
             Some e \<Rightarrow>
               (case DestroyN dst d_first (cur - d_first) of
                  None \<Rightarrow> Undefined
                | Some dst' \<Rightarrow> Throw (src, dst') e)
           | None \<Rightarrow>
               (case construct_at dst cur x of
                  None \<Rightarrow> Undefined
                | Some dst' \<Rightarrow> uninitialized_copy_loop T src (Suc first) n dst' d_first (Suc cur))))"

definition uninitialized_copy_n ::
  "'a elem_type \<Rightarrow> 'a block \<Rightarrow> nat \<Rightarrow> nat \<Rightarrow> 'a block \<Rightarrow> nat
     \<Rightarrow> ('a block \<times> 'a block, unit) outcome" where
  "uninitialized_copy_n T src first n dst d_first =
     uninitialized_copy_loop T src first n dst d_first d_first"

text \<open>
  \<^verbatim>\<open>std::uninitialized_move_n(first, n, d_first)\<close>: as above with the move constructor,
  which leaves each source object moved-from.
\<close>

fun uninitialized_move_loop ::
  "'a elem_type \<Rightarrow> 'a block \<Rightarrow> nat \<Rightarrow> nat \<Rightarrow> 'a block \<Rightarrow> nat \<Rightarrow> nat
     \<Rightarrow> ('a block \<times> 'a block, unit) outcome" where
  "uninitialized_move_loop T src first 0 dst d_first cur = Return (src, dst) ()"
| "uninitialized_move_loop T src first (Suc n) dst d_first cur =
     (case object_at src first of
        None \<Rightarrow> Undefined
      | Some x \<Rightarrow>
          (case move_throws T x of
             Some e \<Rightarrow>
               (case DestroyN dst d_first (cur - d_first) of
                  None \<Rightarrow> Undefined
                | Some dst' \<Rightarrow> Throw (src, dst') e)
           | None \<Rightarrow>
               (case construct_at dst cur x of
                  None \<Rightarrow> Undefined
                | Some dst' \<Rightarrow>
                    uninitialized_move_loop T (src[first := Some (moved_from T x)]) (Suc first) n
                      dst' d_first (Suc cur))))"

definition uninitialized_move_n ::
  "'a elem_type \<Rightarrow> 'a block \<Rightarrow> nat \<Rightarrow> nat \<Rightarrow> 'a block \<Rightarrow> nat
     \<Rightarrow> ('a block \<times> 'a block, unit) outcome" where
  "uninitialized_move_n T src first n dst d_first =
     uninitialized_move_loop T src first n dst d_first d_first"

text \<open>\<^verbatim>\<open>std::uninitialized_value_construct_n(first, n)\<close>, with the same clean-up.\<close>

fun uninitialized_value_construct_loop ::
  "'a elem_type \<Rightarrow> 'a block \<Rightarrow> nat \<Rightarrow> nat \<Rightarrow> nat \<Rightarrow> ('a block, unit) outcome" where
  "uninitialized_value_construct_loop T b first 0 cur = Return b ()"
| "uninitialized_value_construct_loop T b first (Suc n) cur =
     (case default_ctor T of
        Inl e \<Rightarrow>
          (case DestroyN b first (cur - first) of
             None \<Rightarrow> Undefined
           | Some b' \<Rightarrow> Throw b' e)
      | Inr x \<Rightarrow>
          (case construct_at b cur x of
             None \<Rightarrow> Undefined
           | Some b' \<Rightarrow> uninitialized_value_construct_loop T b' first n (Suc cur)))"

definition uninitialized_value_construct_n ::
  "'a elem_type \<Rightarrow> 'a block \<Rightarrow> nat \<Rightarrow> nat \<Rightarrow> ('a block, unit) outcome" where
  "uninitialized_value_construct_n T b first n = uninitialized_value_construct_loop T b first n first"

text \<open>
  \<^verbatim>\<open>std::copy_n(first, n, d_first)\<close>: copy assignment onto objects that are alive; an
  exception leaves the elements assigned so far.
\<close>

fun copy_n :: "'a elem_type \<Rightarrow> 'a block \<Rightarrow> nat \<Rightarrow> nat \<Rightarrow> 'a block \<Rightarrow> nat \<Rightarrow> ('a block, unit) outcome" where
  "copy_n T src first 0 dst d_first = Return dst ()"
| "copy_n T src first (Suc n) dst d_first =
     (case (object_at src first, object_at dst d_first) of
        (Some x, Some y) \<Rightarrow>
          (case copy_assign_throws T x of
             Some e \<Rightarrow> Throw dst e
           | None \<Rightarrow> copy_n T src (Suc first) n (dst[d_first := Some x]) (Suc d_first))
      | _ \<Rightarrow> Undefined)"

text \<open>
  One move assignment \<^verbatim>\<open>b[d] = std::move(b[s])\<close> inside a block: both objects must be
  alive; the target takes the value and the source is left moved-from.
\<close>

definition move_assign_at :: "'a elem_type \<Rightarrow> 'a block \<Rightarrow> nat \<Rightarrow> nat \<Rightarrow> ('a block, unit) outcome" where
  "move_assign_at T b s d =
     (case (object_at b s, object_at b d) of
        (Some x, Some y) \<Rightarrow>
          (case move_assign_throws T x of
             Some e \<Rightarrow> Throw b e
           | None \<Rightarrow> Return ((b[s := Some (moved_from T x)])[d := Some x]) ())
      | _ \<Rightarrow> Undefined)"

text \<open>
  \<^verbatim>\<open>std::move(first, last, d_first)\<close>, front to back, and
  \<^verbatim>\<open>std::move_backward(first, last, d_last)\<close>, back to front, with \<open>n = last - first\<close>
  (a range with \<open>last < first\<close> is invalid).
\<close>

fun move_loop :: "'a elem_type \<Rightarrow> 'a block \<Rightarrow> nat \<Rightarrow> nat \<Rightarrow> nat \<Rightarrow> ('a block, unit) outcome" where
  "move_loop T b first 0 d_first = Return b ()"
| "move_loop T b first (Suc n) d_first =
     (case move_assign_at T b first d_first of
        Return b' u \<Rightarrow> move_loop T b' (Suc first) n (Suc d_first)
      | other \<Rightarrow> other)"

definition std_move :: "'a elem_type \<Rightarrow> 'a block \<Rightarrow> nat \<Rightarrow> nat \<Rightarrow> nat \<Rightarrow> ('a block, unit) outcome" where
  "std_move T b first lst d_first =
     (if lst < first then Undefined else move_loop T b first (lst - first) d_first)"

fun move_backward_loop :: "'a elem_type \<Rightarrow> 'a block \<Rightarrow> nat \<Rightarrow> nat \<Rightarrow> nat \<Rightarrow> ('a block, unit) outcome" where
  "move_backward_loop T b lst 0 d_last = Return b ()"
| "move_backward_loop T b lst (Suc n) d_last =
     (if lst = 0 \<or> d_last = 0 then Undefined
      else (case move_assign_at T b (lst - 1) (d_last - 1) of
              Return b' u \<Rightarrow> move_backward_loop T b' (lst - 1) n (d_last - 1)
            | other \<Rightarrow> other))"

definition move_backward :: "'a elem_type \<Rightarrow> 'a block \<Rightarrow> nat \<Rightarrow> nat \<Rightarrow> nat \<Rightarrow> ('a block, unit) outcome" where
  "move_backward T b first lst d_last =
     (if lst < first then Undefined else move_backward_loop T b lst (lst - first) d_last)"

section \<open>RawMemory\<close>

record 'a RawMemory =
  buffer_m :: "'a block"
  capacity_m :: nat

text \<open>
  \<^verbatim>\<open>Allocate(n)\<close> is the null pointer (no slot) for \<open>n = 0\<close> and otherwise
  \<^verbatim>\<open>operator new(n * sizeof(T))\<close>, the product taken in \<^verbatim>\<open>size_t\<close>: the block has the
  bytes requested, which are room for \<open>n\<close> slots only when the product does not wrap.
  \<^verbatim>\<open>operator new\<close> is taken to succeed: \<^verbatim>\<open>std::bad_alloc\<close> is not modelled.
\<close>

definition Allocate :: "'a elem_type \<Rightarrow> nat \<Rightarrow> 'a block" where
  "Allocate T n =
     (if n \<noteq> 0 then replicate (size_t_mul n (sizeof_T T) div sizeof_T T) None else [])"

text \<open>\<^verbatim>\<open>RawMemory() = default\<close> and \<^verbatim>\<open>explicit RawMemory(size_t capacity)\<close>.\<close>

definition RawMemory_default :: "'a RawMemory" where
  "RawMemory_default = \<lparr>buffer_m = [], capacity_m = 0\<rparr>"

definition RawMemory_new :: "'a elem_type \<Rightarrow> nat \<Rightarrow> 'a RawMemory" where
  "RawMemory_new T n = \<lparr>buffer_m = Allocate T n, capacity_m = n\<rparr>"

text \<open>
  \<^verbatim>\<open>RawMemory::Swap\<close> exchanges the two pointers and the two capacities. The pair is
  (this, other) before and after.
\<close>

definition RawMemory_Swap :: "'a RawMemory \<Rightarrow> 'a RawMemory \<Rightarrow> 'a RawMemory \<times> 'a RawMemory" where
  "RawMemory_Swap this other =
     (this\<lparr>buffer_m := buffer_m other, capacity_m := capacity_m other\<rparr>,
      other\<lparr>buffer_m := buffer_m this, capacity_m := capacity_m this\<rparr>)"

text \<open>
  The move constructor swaps a default-initialised handle with \<open>other\<close>; the result is
  (the new handle, \<open>other\<close> afterwards).
\<close>

definition RawMemory_move_ctor :: "'a RawMemory \<Rightarrow> 'a RawMemory \<times> 'a RawMemory" where
  "RawMemory_move_ctor other = RawMemory_Swap RawMemory_default other"

text \<open>Move assignment swaps as well; the result is (this, \<open>rhs\<close>) afterwards.\<close>

definition RawMemory_move_assign :: "'a RawMemory \<Rightarrow> 'a RawMemory \<Rightarrow> 'a RawMemory \<times> 'a RawMemory" where
  "RawMemory_move_assign this rhs =
     (let (rhs', this') = RawMemory_Swap rhs this in (this', rhs'))"

section \<open>Vector\<close>

record 'a Vector =
  data_m :: "'a RawMemory"
  size_m :: nat

definition Size :: "'a Vector \<Rightarrow> nat" where
  "Size v = size_m v"

definition Capacity :: "'a Vector \<Rightarrow> nat" where
  "Capacity v = capacity_m (data_m v)"

text \<open>The block of a vector, and the vector with another block in the same handle.\<close>

definition block_of :: "'a Vector \<Rightarrow> 'a block" where
  "block_of v = buffer_m (data_m v)"

definition with_block :: "'a Vector \<Rightarrow> 'a block \<Rightarrow> 'a Vector" where
  "with_block v b = v\<lparr>data_m := (data_m v)\<lparr>buffer_m := b\<rparr>\<rparr>"

text \<open>What a caller can observe through \<^verbatim>\<open>begin()\<close> \<dots> \<^verbatim>\<open>end()\<close>: the first \<open>Size\<close> slots.\<close>

definition slots :: "'a Vector \<Rightarrow> 'a block" where
  "slots v = take (size_m v) (block_of v)"

definition elements :: "'a Vector \<Rightarrow> 'a list" where
  "elements v = map the (slots v)"

text \<open>\<^verbatim>\<open>Vector() = default\<close>\<close>

definition Vector_default :: "'a Vector" where
  "Vector_default = \<lparr>data_m = RawMemory_default, size_m = 0\<rparr>"

text \<open>\<^verbatim>\<open>void Swap(Vector& other) noexcept\<close>; the pair is (this, other).\<close>

definition Swap :: "'a Vector \<Rightarrow> 'a Vector \<Rightarrow> 'a Vector \<times> 'a Vector" where
  "Swap this other =
     (let (d, od) = RawMemory_Swap (data_m this) (data_m other)
      in (this\<lparr>data_m := d, size_m := size_m other\<rparr>, other\<lparr>data_m := od, size_m := size_m this\<rparr>))"

text \<open>
  \<^verbatim>\<open>void Reserve(size_t new_capacity)\<close>. The \<^verbatim>\<open>if constexpr\<close> condition is
  \<open>Reserve_moves\<close>. When the relocation throws, \<^verbatim>\<open>new_data\<close> is released and the
  exception leaves \<^verbatim>\<open>Reserve\<close>; after a throwing move the old block holds moved-from
  objects.
\<close>

definition Reserve_moves :: "'a elem_type \<Rightarrow> bool" where
  "Reserve_moves T \<longleftrightarrow> nothrow_move_constructible T \<or> \<not> copy_constructible T"

definition Reserve :: "'a elem_type \<Rightarrow> 'a Vector \<Rightarrow> nat \<Rightarrow> ('a Vector, unit) outcome" where
  "Reserve T v new_capacity =
     (if new_capacity \<le> Capacity v then Return v ()
      else
        let new_data = RawMemory_new T new_capacity;
            relocated =
              (if Reserve_moves T
               then uninitialized_move_n T (block_of v) 0 (size_m v) (buffer_m new_data) 0
               else uninitialized_copy_n T (block_of v) 0 (size_m v) (buffer_m new_data) 0)
        in (case relocated of
              Return (src, dst) u \<Rightarrow>
                (case DestroyN src 0 (size_m v) of
                   None \<Rightarrow> Undefined
                 | Some src' \<Rightarrow>
                     let (d, nd) = RawMemory_Swap ((data_m v)\<lparr>buffer_m := src'\<rparr>)
                                                  (new_data\<lparr>buffer_m := dst\<rparr>)
                     in Return (v\<lparr>data_m := d\<rparr>) ())
            | Throw (src, dst) e \<Rightarrow> Throw (with_block v src) e
            | Undefined \<Rightarrow> Undefined
            | Terminate \<Rightarrow> Terminate))"

text \<open>\<^verbatim>\<open>void PopBack()\<close>\<close>

definition PopBack :: "'a Vector \<Rightarrow> ('a Vector, unit) outcome" where
  "PopBack v =
     (if size_m v = 0 then Return v ()
      else (case Destroy (block_of v) (size_m v - 1) of
              None \<Rightarrow> Undefined
            | Some b \<Rightarrow> Return ((with_block v b)\<lparr>size_m := size_m v - 1\<rparr>) ()))"

text \<open>
  \<^verbatim>\<open>explicit Vector(size_t size)\<close> and the copy constructor
  \<^verbatim>\<open>Vector(const Vector& v)\<close>. A constructor that throws leaves no object; the source of
  a copy is \<^verbatim>\<open>const\<close>.
\<close>

definition Vector_sized :: "'a elem_type \<Rightarrow> nat \<Rightarrow> (unit, 'a Vector) outcome" where
  "Vector_sized T n =
     (let d = RawMemory_new T n
      in (case uninitialized_value_construct_n T (buffer_m d) 0 n of
            Return b u \<Rightarrow> Return () \<lparr>data_m = d\<lparr>buffer_m := b\<rparr>, size_m = n\<rparr>
          | Throw b e \<Rightarrow> Throw () e
          | Undefined \<Rightarrow> Undefined
          | Terminate \<Rightarrow> Terminate))"

definition Vector_copy :: "'a elem_type \<Rightarrow> 'a Vector \<Rightarrow> (unit, 'a Vector) outcome" where
  "Vector_copy T v =
     (let d = RawMemory_new T (size_m v)
      in (case uninitialized_copy_n T (block_of v) 0 (size_m v) (buffer_m d) 0 of
            Return (src, dst) u \<Rightarrow> Return () \<lparr>data_m = d\<lparr>buffer_m := dst\<rparr>, size_m = size_m v\<rparr>
          | Throw s e \<Rightarrow> Throw () e
          | Undefined \<Rightarrow> Undefined
          | Terminate \<Rightarrow> Terminate))"

text \<open>\<^verbatim>\<open>~Vector()\<close> destroys the \<open>Size\<close> objects; the handle then releases the block.\<close>

definition Vector_dtor :: "'a Vector \<Rightarrow> 'a block option" where
  "Vector_dtor v = DestroyN (block_of v) 0 (size_m v)"

text \<open>
  The move constructor \<^verbatim>\<open>Vector(Vector&& other) noexcept\<close>: the handle is move-constructed
  and the sizes are swapped, the new object's size being the member initialiser \<open>0\<close>. The
  result is (the new vector, \<open>other\<close> afterwards).
\<close>

definition Vector_move :: "'a Vector \<Rightarrow> 'a Vector \<times> 'a Vector" where
  "Vector_move other =
     (let (d, od) = RawMemory_move_ctor (data_m other)
      in (\<lparr>data_m = d, size_m = size_m other\<rparr>, other\<lparr>data_m := od, size_m := 0\<rparr>))"

text \<open>
  Move assignment \<^verbatim>\<open>Vector& operator=(Vector&& rhs) noexcept\<close>, for \<^verbatim>\<open>this != &rhs\<close>
  (on the same object it does nothing). The state is (this, \<open>rhs\<close>).
\<close>

definition Vector_move_assign ::
  "'a elem_type \<Rightarrow> 'a Vector \<Rightarrow> 'a Vector \<Rightarrow> ('a Vector \<times> 'a Vector, unit) outcome" where
  "Vector_move_assign T this rhs =
     noexcept
       (if size_m rhs > Capacity this
        then (case Reserve T this (size_m rhs) of
                Return this' u \<Rightarrow> Return (Swap this' rhs) ()
              | Throw this' e \<Rightarrow> Throw (this', rhs) e
              | Undefined \<Rightarrow> Undefined
              | Terminate \<Rightarrow> Terminate)
        else Return (Swap this rhs) ())"

text \<open>
  Copy assignment \<^verbatim>\<open>Vector& operator=(const Vector& rhs)\<close>, for \<^verbatim>\<open>this != &rhs\<close>. In the
  first branch the local \<^verbatim>\<open>copy\<close> holds the old contents after the swap and is destroyed
  at the end of the block.
\<close>

definition Vector_copy_assign ::
  "'a elem_type \<Rightarrow> 'a Vector \<Rightarrow> 'a Vector \<Rightarrow> ('a Vector, unit) outcome" where
  "Vector_copy_assign T this rhs =
     (if size_m rhs > Capacity this
      then (case Vector_copy T rhs of
              Return u copy \<Rightarrow>
                (let (this', copy') = Swap this copy
                 in (case Vector_dtor copy' of
                       None \<Rightarrow> Undefined
                     | Some b \<Rightarrow> Return this' ()))
            | Throw u e \<Rightarrow> Throw this e
            | Undefined \<Rightarrow> Undefined
            | Terminate \<Rightarrow> Terminate)
      else if size_m rhs < size_m this
      then (case copy_n T (block_of rhs) 0 (size_m rhs) (block_of this) 0 of
              Return b u \<Rightarrow>
                (case DestroyN b (size_m rhs) (size_m this - size_m rhs) of
                   None \<Rightarrow> Undefined
                 | Some b' \<Rightarrow> Return ((with_block this b')\<lparr>size_m := size_m rhs\<rparr>) ())
            | Throw b e \<Rightarrow> Throw (with_block this b) e
            | Undefined \<Rightarrow> Undefined
            | Terminate \<Rightarrow> Terminate)
      else (case copy_n T (block_of rhs) 0 (size_m this) (block_of this) 0 of
              Return b u \<Rightarrow>
                (case uninitialized_copy_n T (block_of rhs) (size_m this) (size_m rhs - size_m this)
                        b (size_m this) of
                   Return (src, b') u \<Rightarrow> Return ((with_block this b')\<lparr>size_m := size_m rhs\<rparr>) ()
                 | Throw (src, b') e \<Rightarrow> Throw (with_block this b') e
                 | Undefined \<Rightarrow> Undefined
                 | Terminate \<Rightarrow> Terminate)
            | Throw b e \<Rightarrow> Throw (with_block this b) e
            | Undefined \<Rightarrow> Undefined
            | Terminate \<Rightarrow> Terminate))"

text \<open>\<^verbatim>\<open>void Resize(size_t new_size)\<close>\<close>

definition Resize :: "'a elem_type \<Rightarrow> 'a Vector \<Rightarrow> nat \<Rightarrow> ('a Vector, unit) outcome" where
  "Resize T v new_size =
     (if new_size > size_m v
      then (case Reserve T v new_size of
              Return v1 u \<Rightarrow>
                (case uninitialized_value_construct_n T (block_of v1) (size_m v1)
                        (new_size - size_m v1) of
                   Return b u \<Rightarrow> Return ((with_block v1 b)\<lparr>size_m := new_size\<rparr>) ()
                 | Throw b e \<Rightarrow> Throw (with_block v1 b) e
                 | Undefined \<Rightarrow> Undefined
                 | Terminate \<Rightarrow> Terminate)
            | other \<Rightarrow> other)
      else (case DestroyN (block_of v) new_size (size_m v - new_size) of
              None \<Rightarrow> Undefined
            | Some b \<Rightarrow> Return ((with_block v b)\<lparr>size_m := new_size\<rparr>) ()))"

text \<open>
  \<^verbatim>\<open>T& EmplaceBack(Args&&... args)\<close>. The argument \<open>args\<close> is the outcome of the
  constructor call \<^verbatim>\<open>T(std::forward<Args>(args)...)\<close>, which runs before any element is
  relocated. The \<^verbatim>\<open>if constexpr\<close> condition is \<open>EmplaceBack_moves\<close>. The result is the
  index of the element the returned reference \<^verbatim>\<open>data_[size_ - 1]\<close> denotes.
\<close>

definition EmplaceBack_moves :: "'a elem_type \<Rightarrow> bool" where
  "EmplaceBack_moves T \<longleftrightarrow> nothrow_move_constructible T \<or> \<not> nothrow_copy_constructible T"

definition EmplaceBack :: "'a elem_type \<Rightarrow> 'a Vector \<Rightarrow> exn + 'a \<Rightarrow> ('a Vector, nat) outcome" where
  "EmplaceBack T v args =
     (if size_m v = Capacity v
      then
        let tmp = RawMemory_new T (if size_m v = 0 then 1 else size_t_mul (size_m v) 2)
        in (case args of
              Inl e \<Rightarrow> Throw v e
            | Inr x \<Rightarrow>
                (case construct_at (buffer_m tmp) (size_m v) x of
                   None \<Rightarrow> Undefined
                 | Some tb \<Rightarrow>
                     (case (if EmplaceBack_moves T
                            then uninitialized_move_n T (block_of v) 0 (size_m v) tb 0
                            else uninitialized_copy_n T (block_of v) 0 (size_m v) tb 0) of
                        Return (src, dst) u \<Rightarrow>
                          (case DestroyN src 0 (size_m v) of
                             None \<Rightarrow> Undefined
                           | Some src' \<Rightarrow>
                               let (d, t) = RawMemory_move_assign ((data_m v)\<lparr>buffer_m := src'\<rparr>)
                                                                  (tmp\<lparr>buffer_m := dst\<rparr>)
                               in Return (v\<lparr>data_m := d, size_m := size_m v + 1\<rparr>)
                                         (size_m v + 1 - 1))
                      | Throw (src, dst) e \<Rightarrow> Throw (with_block v src) e
                      | Undefined \<Rightarrow> Undefined
                      | Terminate \<Rightarrow> Terminate)))
      else (case args of
              Inl e \<Rightarrow> Throw v e
            | Inr x \<Rightarrow>
                (case construct_at (block_of v) (size_m v) x of
                   None \<Rightarrow> Undefined
                 | Some b \<Rightarrow>
                     Return ((with_block v b)\<lparr>size_m := size_m v + 1\<rparr>) (size_m v + 1 - 1))))"

text \<open>
  \<^verbatim>\<open>void PushBack(const T& value)\<close> and \<^verbatim>\<open>void PushBack(T&& value)\<close> forward to
  \<^verbatim>\<open>EmplaceBack\<close> and drop the reference it returns.
\<close>

definition discard_result :: "('s, 'r) outcome \<Rightarrow> ('s, unit) outcome" where
  "discard_result m =
     (case m of
        Return s r \<Rightarrow> Return s ()
      | Throw s e \<Rightarrow> Throw s e
      | Undefined \<Rightarrow> Undefined
      | Terminate \<Rightarrow> Terminate)"

definition PushBack :: "'a elem_type \<Rightarrow> 'a Vector \<Rightarrow> 'a \<Rightarrow> ('a Vector, unit) outcome" where
  "PushBack T v val = discard_result (EmplaceBack T v (copy_construct T val))"

definition PushBack_rvalue :: "'a elem_type \<Rightarrow> 'a Vector \<Rightarrow> 'a \<Rightarrow> ('a Vector, unit) outcome" where
  "PushBack_rvalue T v val = discard_result (EmplaceBack T v (move_construct T val))"

text \<open>
  Iterators are pointers into the block; a position is its distance from
  \<^verbatim>\<open>begin()\<close>. \<^verbatim>\<open>Emplace\<close> and \<^verbatim>\<open>Erase\<close> store that distance in an
  \<^verbatim>\<open>int\<close> (\<^verbatim>\<open>int index = pos - begin()\<close>), 32 bits wide, and later subtract it from
  the 64-bit \<^verbatim>\<open>size_\<close>.
\<close>

definition to_int :: "nat \<Rightarrow> int" where
  "to_int d = (let m = int d mod 2 ^ 32 in if m < 2 ^ 31 then m else m - 2 ^ 32)"

definition size_minus :: "nat \<Rightarrow> int \<Rightarrow> nat" where
  "size_minus n i = nat ((int n - i) mod 2 ^ 64)"

text \<open>
  \<^verbatim>\<open>iterator Emplace(const_iterator pos, Args&&... args)\<close>. The first branch builds the
  new block; its handlers catch \<^verbatim>\<open>std::exception\<close> and then let control run on to the
  statements after the \<^verbatim>\<open>if constexpr\<close> (\<open>Emplace_relocate\<close> is that
  \<^verbatim>\<open>if constexpr\<close> statement). The second branch works in place: it builds the temporary
  \<^verbatim>\<open>tmp\<close>, runs \<^verbatim>\<open>new (end()) T(std::move(data_[size_]))\<close>, which reads the object in
  slot \<^verbatim>\<open>size_\<close>, the slot under construction, so that the source of the move is its
  target and is left moved-from, then \<^verbatim>\<open>std::move_backward\<close> and the assignment of
  \<^verbatim>\<open>tmp\<close>. The third branch is the in-place insertion into an empty vector.
\<close>

definition Emplace_moves :: "'a elem_type \<Rightarrow> bool" where
  "Emplace_moves T \<longleftrightarrow> nothrow_move_constructible T \<or> \<not> nothrow_copy_constructible T"

definition Emplace_relocate ::
  "'a elem_type \<Rightarrow> 'a block \<Rightarrow> nat \<Rightarrow> nat \<Rightarrow> 'a block \<Rightarrow> ('a block \<times> 'a block, unit) outcome" where
  "Emplace_relocate T src sz index tb =
     (if Emplace_moves T
      then (case uninitialized_move_n T src 0 index tb 0 of
              Return (src1, dst1) u \<Rightarrow>
                catch_std_exception
                  (uninitialized_move_n T src1 index (size_minus sz (int index)) dst1 (index + 1))
                  (\<lambda>(src2, dst2). case DestroyN dst2 0 index of
                                     None \<Rightarrow> Undefined
                                   | Some dst3 \<Rightarrow> Return (src2, dst3) ())
            | other \<Rightarrow> other)
      else (case catch_std_exception
                   (uninitialized_copy_n T src 0 index tb 0)
                   (\<lambda>(src1, dst1). case Destroy dst1 index of
                                      None \<Rightarrow> Undefined
                                    | Some dst2 \<Rightarrow> Return (src1, dst2) ()) of
              Return (src1, dst1) u \<Rightarrow>
                catch_std_exception
                  (uninitialized_copy_n T src1 index (size_minus sz (int index)) dst1 (index + 1))
                  (\<lambda>(src2, dst2). case DestroyN dst2 0 index of
                                     None \<Rightarrow> Undefined
                                   | Some dst3 \<Rightarrow> Return (src2, dst3) ())
            | other \<Rightarrow> other))"

definition Emplace :: "'a elem_type \<Rightarrow> 'a Vector \<Rightarrow> nat \<Rightarrow> exn + 'a \<Rightarrow> ('a Vector, nat) outcome" where
  "Emplace T v pos args =
     (let index = to_int pos
      in if size_m v = Capacity v
         then
           let tmp = RawMemory_new T (if size_m v = 0 then 1 else size_t_mul (size_m v) 2)
           in if index < 0 then Undefined
              else (case args of
                      Inl e \<Rightarrow> Throw v e
                    | Inr x \<Rightarrow>
                        (case construct_at (buffer_m tmp) (nat index) x of
                           None \<Rightarrow> Undefined
                         | Some tb \<Rightarrow>
                             (case Emplace_relocate T (block_of v) (size_m v) (nat index) tb of
                                Return (src, dst) u \<Rightarrow>
                                  (case DestroyN src 0 (size_m v) of
                                     None \<Rightarrow> Undefined
                                   | Some src' \<Rightarrow>
                                       let (d, t) = RawMemory_move_assign
                                                      ((data_m v)\<lparr>buffer_m := src'\<rparr>)
                                                      (tmp\<lparr>buffer_m := dst\<rparr>)
                                       in Return (v\<lparr>data_m := d, size_m := size_m v + 1\<rparr>)
                                                 (nat index))
                              | Throw (src, dst) e \<Rightarrow> Throw (with_block v src) e
                              | Undefined \<Rightarrow> Undefined
                              | Terminate \<Rightarrow> Terminate)))
         else if size_m v \<noteq> 0
         then (case args of
                 Inl e \<Rightarrow> Throw v e
               | Inr tmp \<Rightarrow>
                   (case object_at (block_of v) (size_m v) of
                      None \<Rightarrow> Undefined
                    | Some y \<Rightarrow>
                        (case move_throws T y of
                           Some e \<Rightarrow> Throw v e
                         | None \<Rightarrow>
                             (case construct_at (block_of v) (size_m v) y of
                                None \<Rightarrow> Undefined
                              | Some b0 \<Rightarrow>
                                  let b1 = b0[size_m v := Some (moved_from T y)]
                                  in
                                  if index < 0 then Undefined
                                  else (case move_backward T b1 (nat index) (size_m v - 1) (size_m v) of
                                          Return b2 u \<Rightarrow>
                                            (case object_at b2 (nat index) of
                                               None \<Rightarrow> Undefined
                                             | Some z \<Rightarrow>
                                                 (case move_assign_throws T tmp of
                                                    Some e \<Rightarrow> Throw (with_block v b2) e
                                                  | None \<Rightarrow>
                                                      Return ((with_block v (b2[nat index := Some tmp]))
                                                                \<lparr>size_m := size_m v + 1\<rparr>)
                                                             (nat index)))
                                        | Throw b2 e \<Rightarrow> Throw (with_block v b2) e
                                        | Undefined \<Rightarrow> Undefined
                                        | Terminate \<Rightarrow> Terminate)))))
         else if index < 0 then Undefined
         else (case args of
                 Inl e \<Rightarrow> Throw v e
               | Inr x \<Rightarrow>
                   (case construct_at (block_of v) (nat index) x of
                      None \<Rightarrow> Undefined
                    | Some b \<Rightarrow> Return ((with_block v b)\<lparr>size_m := size_m v + 1\<rparr>) (nat index))))"

text \<open>\<^verbatim>\<open>iterator Insert(const_iterator pos, const T& value)\<close> and its rvalue overload.\<close>

definition Insert :: "'a elem_type \<Rightarrow> 'a Vector \<Rightarrow> nat \<Rightarrow> 'a \<Rightarrow> ('a Vector, nat) outcome" where
  "Insert T v pos val = Emplace T v pos (copy_construct T val)"

definition Insert_rvalue :: "'a elem_type \<Rightarrow> 'a Vector \<Rightarrow> nat \<Rightarrow> 'a \<Rightarrow> ('a Vector, nat) outcome" where
  "Insert_rvalue T v pos val = Emplace T v pos (move_construct T val)"

text \<open>
  \<^verbatim>\<open>iterator Erase(const_iterator pos)\<close>. On an empty vector \<^verbatim>\<open>end() - 1\<close> lies before
  the block, and for \<open>index + 1 > size_\<close> the range handed to \<^verbatim>\<open>std::move\<close> is invalid.
\<close>

definition Erase :: "'a elem_type \<Rightarrow> 'a Vector \<Rightarrow> nat \<Rightarrow> ('a Vector, nat) outcome" where
  "Erase T v pos =
     (let index = to_int pos
      in if index < 0 then Undefined
         else (case std_move T (block_of v) (nat index + 1) (size_m v) (nat index) of
                 Return b u \<Rightarrow>
                   (if size_m v = 0 then Undefined
                    else (case Destroy b (size_m v - 1) of
                            None \<Rightarrow> Undefined
                          | Some b' \<Rightarrow>
                              Return ((with_block v b')\<lparr>size_m := size_m v - 1\<rparr>) (nat index)))
               | Throw b e \<Rightarrow> Throw (with_block v b) e
               | Undefined \<Rightarrow> Undefined
               | Terminate \<Rightarrow> Terminate))"

text \<open>
  The class invariant of the specification: the block has \<open>Capacity\<close> slots, \<open>Size\<close> is at
  most \<open>Capacity\<close>, the slots below \<open>Size\<close> hold objects and the slots from \<open>Size\<close> on hold
  none.
\<close>

definition Vector_inv :: "'a Vector \<Rightarrow> bool" where
  "Vector_inv v \<longleftrightarrow>
     length (block_of v) = Capacity v \<and> size_m v \<le> Capacity v \<and>
     list_all (\<lambda>s. s \<noteq> None) (take (size_m v) (block_of v)) \<and>
     list_all (\<lambda>s. s = None) (drop (size_m v) (block_of v))"

section \<open>Sequences of calls, and the vectors and element types of the examples\<close>

text \<open>Appending the values of a list one by one with \<^verbatim>\<open>PushBack(const T&)\<close>.\<close>

fun PushBack_all :: "'a elem_type \<Rightarrow> 'a Vector \<Rightarrow> 'a list \<Rightarrow> ('a Vector, unit) outcome" where
  "PushBack_all T v [] = Return v ()"
| "PushBack_all T v (x # xs) =
     (case PushBack T v x of
        Return v' u \<Rightarrow> PushBack_all T v' xs
      | other \<Rightarrow> other)"

text \<open>The vector that holds the elements \<open>xs\<close> in a block of \<open>c\<close> slots.\<close>

definition vector_of :: "'a list \<Rightarrow> nat \<Rightarrow> 'a Vector" where
  "vector_of xs c =
     \<lparr>data_m = \<lparr>buffer_m = map Some xs @ replicate (c - length xs) None, capacity_m = c\<rparr>,
      size_m = length xs\<rparr>"

text \<open>
  Two element types over the natural numbers. \<open>plain_type\<close> behaves like \<^verbatim>\<open>int\<close>:
  four bytes, nothing throws. \<open>throwing_type\<close> has eight bytes and is copyable and movable,
  neither \<^verbatim>\<open>noexcept\<close>: copying or moving the value \<open>13\<close> throws an exception derived from
  \<^verbatim>\<open>std::exception\<close>, and a move leaves \<open>0\<close> behind.
\<close>

definition plain_type :: "nat elem_type" where
  "plain_type =
     \<lparr>sizeof_T = 4, nothrow_move_constructible = True, copy_constructible = True,
      nothrow_copy_constructible = True,
      copy_throws = (\<lambda>x. None), move_throws = (\<lambda>x. None), moved_from = (\<lambda>x. x),
      default_ctor = Inr 0,
      copy_assign_throws = (\<lambda>x. None), move_assign_throws = (\<lambda>x. None)\<rparr>"

definition throwing_type :: "nat elem_type" where
  "throwing_type =
     \<lparr>sizeof_T = 8, nothrow_move_constructible = False, copy_constructible = True,
      nothrow_copy_constructible = False,
      copy_throws = (\<lambda>x. if x = 13 then Some StdException else None),
      move_throws = (\<lambda>x. if x = 13 then Some StdException else None),
      moved_from = (\<lambda>x. 0),
      default_ctor = Inr 0,
      copy_assign_throws = (\<lambda>x. None), move_assign_throws = (\<lambda>x. None)\<rparr>"

text \<open>
  No element of \<open>xs\<close> throws when it is relocated, by move if \<open>moves\<close> and by copy
  otherwise.
\<close>

definition relocates_ok :: "bool \<Rightarrow> 'a elem_type \<Rightarrow> 'a list \<Rightarrow> bool" where
  "relocates_ok moves T xs \<longleftrightarrow>
     (\<forall>x\<in>set xs. (if moves then move_throws T x else copy_throws T x) = None)"

text \<open>
  The byte count of \<open>n\<close> elements of \<open>T\<close> is a \<^verbatim>\<open>size_t\<close>: \<^verbatim>\<open>n * sizeof(T)\<close> does not wrap
  (and \<^verbatim>\<open>sizeof(T)\<close> is not zero, as for every type).
\<close>

definition block_fits :: "'a elem_type \<Rightarrow> nat \<Rightarrow> bool" where
  "block_fits T n \<longleftrightarrow> 0 < sizeof_T T \<and> int n * int (sizeof_T T) < 2 ^ 64"

text \<open>
  The three ways to append: \<^verbatim>\<open>PushBack(const T&)\<close>, \<^verbatim>\<open>PushBack(T&&)\<close> and
  \<^verbatim>\<open>EmplaceBack(args...)\<close>; the outcome of the constructor call that builds the new
  element in each; and a sequence of appends, one after the other.
\<close>

datatype 'a append_call = By_PushBack 'a | By_PushBack_rvalue 'a | By_EmplaceBack "exn + 'a"

fun new_element :: "'a elem_type \<Rightarrow> 'a append_call \<Rightarrow> exn + 'a" where
  "new_element T (By_PushBack x) = copy_construct T x"
| "new_element T (By_PushBack_rvalue x) = move_construct T x"
| "new_element T (By_EmplaceBack a) = a"

fun append_one :: "'a elem_type \<Rightarrow> 'a Vector \<Rightarrow> 'a append_call \<Rightarrow> ('a Vector, unit) outcome" where
  "append_one T v (By_PushBack x) = PushBack T v x"
| "append_one T v (By_PushBack_rvalue x) = PushBack_rvalue T v x"
| "append_one T v (By_EmplaceBack a) = discard_result (EmplaceBack T v a)"

fun append_all :: "'a elem_type \<Rightarrow> 'a Vector \<Rightarrow> 'a append_call list \<Rightarrow> ('a Vector, unit) outcome" where
  "append_all T v [] = Return v ()"
| "append_all T v (c # cs) =
     (case append_one T v c of
        Return v' u \<Rightarrow> append_all T v' cs
      | other \<Rightarrow> other)"

section \<open>Blocks of the form prefix, objects, suffix\<close>

lemma object_at_mid [simp]: "object_at (p @ s # q) (length p) = s"
  by (simp add: object_at_def)

lemma object_at_beyond [simp]: "length b \<le> i \<Longrightarrow> object_at b i = None"
  by (simp add: object_at_def)

lemma construct_at_mid [simp]: "construct_at (p @ s # q) (length p) x = Some (p @ Some x # q)"
  by (simp add: construct_at_def)

lemma construct_at_end [simp]: "construct_at p (length p) x = None"
  by (simp add: construct_at_def)

lemma Destroy_mid [simp]: "Destroy (p @ Some x # q) (length p) = Some (p @ None # q)"
  by (simp add: Destroy_def)

lemma Destroy_raw [simp]: "Destroy (p @ None # q) (length p) = None"
  by (simp add: Destroy_def)

lemma DestroyN_live:
  "DestroyN (p @ map Some xs @ q) (length p) (length xs) = Some (p @ replicate (length xs) None @ q)"
proof (induction xs arbitrary: p)
  case Nil
  show ?case by simp
next
  case (Cons x xs)
  have "DestroyN ((p @ [None]) @ map Some xs @ q) (length (p @ [None])) (length xs)
          = Some ((p @ [None]) @ replicate (length xs) None @ q)"
    by (rule Cons.IH)
  then show ?case by simp
qed

text \<open>As long as the byte count does not wrap, \<^verbatim>\<open>Allocate(n)\<close> is a block of \<open>n\<close> slots.\<close>

lemma size_t_mul_nat: "size_t_mul a b = (a * b) mod 2 ^ 64"
proof -
  have "int (size_t_mul a b) = int ((a * b) mod 2 ^ 64)"
    by (simp add: size_t_mul_def zmod_int)
  then show ?thesis by (simp only: of_nat_eq_iff)
qed

lemma block_fits_nat: "block_fits T n \<longleftrightarrow> 0 < sizeof_T T \<and> n * sizeof_T T < 2 ^ 64"
proof -
  have "int n * int (sizeof_T T) < 2 ^ 64 \<longleftrightarrow> int (n * sizeof_T T) < int (2 ^ 64)"
    by simp
  also have "\<dots> \<longleftrightarrow> n * sizeof_T T < 2 ^ 64" by (simp only: of_nat_less_iff)
  finally show ?thesis by (simp add: block_fits_def)
qed

lemma block_fits_mono: "block_fits T n \<Longrightarrow> m \<le> n \<Longrightarrow> block_fits T m"
proof -
  assume a: "block_fits T n" and b: "m \<le> n"
  have "m * sizeof_T T \<le> n * sizeof_T T" using b by (rule mult_le_mono1)
  then show ?thesis using a unfolding block_fits_nat by (meson le_less_trans)
qed

lemma block_fits_size_t: "block_fits T n \<Longrightarrow> n < 2 ^ 64"
proof -
  assume a: "block_fits T n"
  then have c: "1 \<le> sizeof_T T" and b: "n * sizeof_T T < 2 ^ 64"
    unfolding block_fits_nat by simp_all
  from c have "n * 1 \<le> n * sizeof_T T" by (rule mult_le_mono2)
  then have "n \<le> n * sizeof_T T" by simp
  then show ?thesis using b by (rule le_less_trans)
qed

lemma Allocate_replicate: "block_fits T n \<Longrightarrow> Allocate T n = replicate n None"
  by (simp add: Allocate_def size_t_mul_nat block_fits_nat)

lemma Allocate_split:
  "k \<le> n \<Longrightarrow> block_fits T n \<Longrightarrow> Allocate T n = replicate k None @ replicate (n - k) None"
  by (simp add: Allocate_replicate replicate_add [symmetric])

lemma size_t_mul_2: "block_fits T (n * 2) \<Longrightarrow> size_t_mul n 2 = n * 2"
  using block_fits_size_t [of T "n * 2"] by (simp add: size_t_mul_nat)

lemma grow_bound: "Suc n \<le> (if n = 0 then 1 else n * 2)"
  by (cases n) simp_all

section \<open>The standard algorithms on such blocks\<close>

lemma copy_loop_Return:
  assumes "\<forall>x\<in>set xs. copy_throws T x = None" and "length ys = length xs"
  shows "uninitialized_copy_loop T (p @ map Some xs @ q) (length p) (length xs)
           (dp @ ys @ dq) d_first (length dp)
         = Return (p @ map Some xs @ q, dp @ map Some xs @ dq) ()"
  using assms
proof (induction xs arbitrary: p dp ys)
  case Nil
  then show ?case by simp
next
  case (Cons x xs)
  then obtain y ys' where ys: "ys = y # ys'" and len: "length ys' = length xs"
    by (cases ys) auto
  have good: "\<forall>x\<in>set xs. copy_throws T x = None" and cx: "copy_throws T x = None"
    using Cons.prems(1) by auto
  have "uninitialized_copy_loop T ((p @ [Some x]) @ map Some xs @ q) (length (p @ [Some x]))
          (length xs) ((dp @ [Some x]) @ ys' @ dq) d_first (length (dp @ [Some x]))
        = Return ((p @ [Some x]) @ map Some xs @ q, (dp @ [Some x]) @ map Some xs @ dq) ()"
    by (rule Cons.IH [OF good len])
  then show ?case using cx ys by simp
qed

lemma move_loop_Return:
  assumes "\<forall>x\<in>set xs. move_throws T x = None" and "length ys = length xs"
  shows "uninitialized_move_loop T (p @ map Some xs @ q) (length p) (length xs)
           (dp @ ys @ dq) d_first (length dp)
         = Return (p @ map Some (map (moved_from T) xs) @ q, dp @ map Some xs @ dq) ()"
  using assms
proof (induction xs arbitrary: p dp ys)
  case Nil
  then show ?case by simp
next
  case (Cons x xs)
  then obtain y ys' where ys: "ys = y # ys'" and len: "length ys' = length xs"
    by (cases ys) auto
  have good: "\<forall>x\<in>set xs. move_throws T x = None" and cx: "move_throws T x = None"
    using Cons.prems(1) by auto
  have "uninitialized_move_loop T ((p @ [Some (moved_from T x)]) @ map Some xs @ q)
          (length (p @ [Some (moved_from T x)]))
          (length xs) ((dp @ [Some x]) @ ys' @ dq) d_first (length (dp @ [Some x]))
        = Return ((p @ [Some (moved_from T x)]) @ map Some (map (moved_from T) xs) @ q,
                  (dp @ [Some x]) @ map Some xs @ dq) ()"
    by (rule Cons.IH [OF good len])
  then show ?case using cx ys by simp
qed

lemma copy_loop_Throw:
  assumes "\<forall>x\<in>set xs1. copy_throws T x = None" and "copy_throws T bad = Some e"
    and "length ys = length xs1"
  shows "uninitialized_copy_loop T (p @ map Some (xs1 @ bad # xs2) @ q) (length p)
           (length (xs1 @ bad # xs2)) (dp @ map Some cs @ ys @ dq) (length dp)
           (length dp + length cs)
         = Throw (p @ map Some (xs1 @ bad # xs2) @ q,
                  dp @ replicate (length cs + length xs1) None @ dq) e"
  using assms
proof (induction xs1 arbitrary: p cs ys)
  case Nil
  have "DestroyN (dp @ map Some cs @ dq) (length dp) (length cs)
          = Some (dp @ replicate (length cs) None @ dq)"
    by (rule DestroyN_live)
  then show ?case using Nil by simp
next
  case (Cons x xs1)
  then obtain y ys' where ys: "ys = y # ys'" and len: "length ys' = length xs1"
    by (cases ys) auto
  have good: "\<forall>x\<in>set xs1. copy_throws T x = None" and cx: "copy_throws T x = None"
    using Cons.prems(1) by auto
  have c: "construct_at (dp @ map Some cs @ ys @ dq) (length dp + length cs) x
             = Some (dp @ map Some (cs @ [x]) @ ys' @ dq)"
    using construct_at_mid [of "dp @ map Some cs" y "ys' @ dq" x] ys by simp
  have "uninitialized_copy_loop T ((p @ [Some x]) @ map Some (xs1 @ bad # xs2) @ q)
          (length (p @ [Some x])) (length (xs1 @ bad # xs2))
          (dp @ map Some (cs @ [x]) @ ys' @ dq) (length dp) (length dp + length (cs @ [x]))
        = Throw ((p @ [Some x]) @ map Some (xs1 @ bad # xs2) @ q,
                 dp @ replicate (length (cs @ [x]) + length xs1) None @ dq) e"
    by (rule Cons.IH [OF good Cons.prems(2) len])
  then show ?case using cx c by simp
qed

lemma move_loop_Throw:
  assumes "\<forall>x\<in>set xs1. move_throws T x = None" and "move_throws T bad = Some e"
    and "length ys = length xs1"
  shows "uninitialized_move_loop T (p @ map Some (xs1 @ bad # xs2) @ q) (length p)
           (length (xs1 @ bad # xs2)) (dp @ map Some cs @ ys @ dq) (length dp)
           (length dp + length cs)
         = Throw (p @ map Some (map (moved_from T) xs1 @ bad # xs2) @ q,
                  dp @ replicate (length cs + length xs1) None @ dq) e"
  using assms
proof (induction xs1 arbitrary: p cs ys)
  case Nil
  have "DestroyN (dp @ map Some cs @ dq) (length dp) (length cs)
          = Some (dp @ replicate (length cs) None @ dq)"
    by (rule DestroyN_live)
  then show ?case using Nil by simp
next
  case (Cons x xs1)
  then obtain y ys' where ys: "ys = y # ys'" and len: "length ys' = length xs1"
    by (cases ys) auto
  have good: "\<forall>x\<in>set xs1. move_throws T x = None" and cx: "move_throws T x = None"
    using Cons.prems(1) by auto
  have c: "construct_at (dp @ map Some cs @ ys @ dq) (length dp + length cs) x
             = Some (dp @ map Some (cs @ [x]) @ ys' @ dq)"
    using construct_at_mid [of "dp @ map Some cs" y "ys' @ dq" x] ys by simp
  have "uninitialized_move_loop T ((p @ [Some (moved_from T x)]) @ map Some (xs1 @ bad # xs2) @ q)
          (length (p @ [Some (moved_from T x)])) (length (xs1 @ bad # xs2))
          (dp @ map Some (cs @ [x]) @ ys' @ dq) (length dp) (length dp + length (cs @ [x]))
        = Throw ((p @ [Some (moved_from T x)]) @ map Some (map (moved_from T) xs1 @ bad # xs2) @ q,
                 dp @ replicate (length (cs @ [x]) + length xs1) None @ dq) e"
    by (rule Cons.IH [OF good Cons.prems(2) len])
  then show ?case using cx c by simp
qed

text \<open>A list of elements either never throws or has a first element that does.\<close>

lemma first_throwing:
  assumes "\<not> (\<forall>x\<in>set xs. f x = None)"
  obtains xs1 bad xs2 e where "xs = xs1 @ bad # xs2" and "\<forall>x\<in>set xs1. f x = None"
    and "f bad = Some e"
proof -
  from assms have "\<exists>x\<in>set xs. f x \<noteq> None" by simp
  then obtain xs1 bad xs2 where "xs = xs1 @ bad # xs2" and "f bad \<noteq> None"
    and "\<forall>x\<in>set xs1. \<not> f x \<noteq> None"
    using split_list_first_prop [of xs "\<lambda>x. f x \<noteq> None"] by blast
  then show ?thesis using that by auto
qed

lemma not_relocates_ok:
  assumes "\<not> relocates_ok moves T xs"
  obtains xs1 bad xs2 e where "xs = xs1 @ bad # xs2" and "relocates_ok moves T xs1"
    and "(if moves then move_throws T bad else copy_throws T bad) = Some e"
  using assms first_throwing [of xs "\<lambda>x. if moves then move_throws T x else copy_throws T x"]
  unfolding relocates_ok_def by metis

lemma relocates_ok_append:
  "relocates_ok b T (xs @ ys) \<longleftrightarrow> relocates_ok b T xs \<and> relocates_ok b T ys"
  by (auto simp: relocates_ok_def)

text \<open>The two relocations from the front of a block into a fresh block.\<close>

lemma copy_n_Return:
  assumes "\<forall>x\<in>set xs. copy_throws T x = None" and "length ys = length xs"
  shows "uninitialized_copy_n T (map Some xs @ q) 0 (length xs) (ys @ dq) 0
           = Return (map Some xs @ q, map Some xs @ dq) ()"
  using copy_loop_Return [OF assms, of "[]" q "[]" dq 0] by (simp add: uninitialized_copy_n_def)

lemma move_n_Return:
  assumes "\<forall>x\<in>set xs. move_throws T x = None" and "length ys = length xs"
  shows "uninitialized_move_n T (map Some xs @ q) 0 (length xs) (ys @ dq) 0
           = Return (map Some (map (moved_from T) xs) @ q, map Some xs @ dq) ()"
  using move_loop_Return [OF assms, of "[]" q "[]" dq 0] by (simp add: uninitialized_move_n_def)

lemma copy_n_Throw:
  assumes "\<forall>x\<in>set xs1. copy_throws T x = None" and "copy_throws T bad = Some e"
    and "length ys = length xs1"
  shows "uninitialized_copy_n T (map Some (xs1 @ bad # xs2) @ q) 0 (length (xs1 @ bad # xs2))
           (ys @ dq) 0
         = Throw (map Some (xs1 @ bad # xs2) @ q, replicate (length xs1) None @ dq) e"
  using copy_loop_Throw [OF assms, of "[]" xs2 q "[]" "[]" dq]
  by (simp add: uninitialized_copy_n_def)

lemma move_n_Throw:
  assumes "\<forall>x\<in>set xs1. move_throws T x = None" and "move_throws T bad = Some e"
    and "length ys = length xs1"
  shows "uninitialized_move_n T (map Some (xs1 @ bad # xs2) @ q) 0 (length (xs1 @ bad # xs2))
           (ys @ dq) 0
         = Throw (map Some (map (moved_from T) xs1 @ bad # xs2) @ q,
                  replicate (length xs1) None @ dq) e"
  using move_loop_Throw [OF assms, of "[]" xs2 q "[]" "[]" dq]
  by (simp add: uninitialized_move_n_def)

text \<open>
  Whenever a relocation returns, it has written the objects of the source range, in order,
  over the destination range, and both ranges lie inside their blocks.
\<close>

lemma update_as_take_drop:
  "i < length xs \<Longrightarrow> take (Suc i) (xs[i := y]) = take i xs @ [y]"
  by (simp add: take_Suc_conv_app_nth)

lemma copy_loop_Return_D:
  assumes "uninitialized_copy_loop T src first n dst d_first cur = Return (s, d) u"
  shows "d = take cur dst @ take n (drop first src) @ drop (cur + n) dst \<and>
         (0 < n \<longrightarrow> first + n \<le> length src \<and> cur + n \<le> length dst)"
  using assms
proof (induction n arbitrary: first dst cur)
  case 0
  then show ?case by simp
next
  case (Suc n)
  from Suc.prems obtain x where x: "object_at src first = Some x"
    by (cases "object_at src first") simp_all
  then have f: "first < length src" and sx: "src ! first = Some x"
    by (simp_all add: object_at_def split: if_splits)
  from Suc.prems x have nt: "copy_throws T x = None"
    by (cases "copy_throws T x") (simp_all split: option.splits)
  from Suc.prems x nt obtain dst' where c: "construct_at dst cur x = Some dst'"
    by (cases "construct_at dst cur x") simp_all
  then have cl: "cur < length dst" and dst': "dst' = dst[cur := Some x]"
    by (simp_all add: construct_at_def split: if_splits)
  from Suc.prems x nt c
  have "uninitialized_copy_loop T src (Suc first) n dst' d_first (Suc cur) = Return (s, d) u"
    by simp
  from Suc.IH [OF this]
  have a: "0 < n \<longrightarrow> Suc first + n \<le> length src \<and> Suc cur + n \<le> length dst'"
    and d: "d = take (Suc cur) dst' @ take n (drop (Suc first) src) @ drop (Suc cur + n) dst'"
    by simp_all
  have t: "take (Suc cur) dst' = take cur dst @ [Some x]"
    unfolding dst' using cl by (rule update_as_take_drop)
  have dr: "drop (Suc cur + n) dst' = drop (cur + Suc n) dst"
    unfolding dst' by simp
  have sr: "take (Suc n) (drop first src) = Some x # take n (drop (Suc first) src)"
    using f sx by (simp add: Cons_nth_drop_Suc [symmetric])
  have bnd: "first + Suc n \<le> length src \<and> cur + Suc n \<le> length dst"
    using a f cl dst' by (cases n) simp_all
  show ?case using bnd d t dr sr by simp
qed

lemma move_loop_Return_D:
  assumes "uninitialized_move_loop T src first n dst d_first cur = Return (s, d) u"
  shows "d = take cur dst @ take n (drop first src) @ drop (cur + n) dst \<and>
         (0 < n \<longrightarrow> first + n \<le> length src \<and> cur + n \<le> length dst)"
  using assms
proof (induction n arbitrary: src first dst cur)
  case 0
  then show ?case by simp
next
  case (Suc n)
  from Suc.prems obtain x where x: "object_at src first = Some x"
    by (cases "object_at src first") simp_all
  then have f: "first < length src" and sx: "src ! first = Some x"
    by (simp_all add: object_at_def split: if_splits)
  from Suc.prems x have nt: "move_throws T x = None"
    by (cases "move_throws T x") (simp_all split: option.splits)
  from Suc.prems x nt obtain dst' where c: "construct_at dst cur x = Some dst'"
    by (cases "construct_at dst cur x") simp_all
  then have cl: "cur < length dst" and dst': "dst' = dst[cur := Some x]"
    by (simp_all add: construct_at_def split: if_splits)
  let ?src' = "src[first := Some (moved_from T x)]"
  from Suc.prems x nt c
  have "uninitialized_move_loop T ?src' (Suc first) n dst' d_first (Suc cur) = Return (s, d) u"
    by simp
  from Suc.IH [OF this]
  have a: "0 < n \<longrightarrow> Suc first + n \<le> length ?src' \<and> Suc cur + n \<le> length dst'"
    and d: "d = take (Suc cur) dst' @ take n (drop (Suc first) ?src') @ drop (Suc cur + n) dst'"
    by simp_all
  have t: "take (Suc cur) dst' = take cur dst @ [Some x]"
    unfolding dst' using cl by (rule update_as_take_drop)
  have dr: "drop (Suc cur + n) dst' = drop (cur + Suc n) dst"
    unfolding dst' by simp
  have s': "drop (Suc first) ?src' = drop (Suc first) src" by simp
  have sr: "take (Suc n) (drop first src) = Some x # take n (drop (Suc first) src)"
    using f sx by (simp add: Cons_nth_drop_Suc [symmetric])
  have bnd: "first + Suc n \<le> length src \<and> cur + Suc n \<le> length dst"
    using a f cl dst' by (cases n) simp_all
  show ?case using bnd d t dr sr s' by simp
qed

lemma relocation_Return_D:
  assumes "(if m then uninitialized_move_n T src 0 n dst 0
            else uninitialized_copy_n T src 0 n dst 0) = Return (s, d) u"
  shows "take n d = take n src" and "length d = length dst"
proof -
  have a: "d = take 0 dst @ take n (drop 0 src) @ drop (0 + n) dst \<and>
           (0 < n \<longrightarrow> 0 + n \<le> length src \<and> 0 + n \<le> length dst)"
  proof (cases m)
    case True
    with assms show ?thesis
      unfolding uninitialized_move_n_def by (simp only: if_True) (rule move_loop_Return_D)
  next
    case False
    with assms show ?thesis
      unfolding uninitialized_copy_n_def by (simp only: if_False) (rule copy_loop_Return_D)
  qed
  then have d: "d = take n src @ drop n dst" and b: "0 < n \<longrightarrow> n \<le> length src \<and> n \<le> length dst"
    by simp_all
  show "take n d = take n src" using d b by (cases n) simp_all
  show "length d = length dst" using d b by (cases n) auto
qed

lemma value_construct_loop_Return:
  assumes "default_ctor T = Inr d" and "length ys = n"
  shows "uninitialized_value_construct_loop T (p @ ys @ q) first n (length p)
           = Return (p @ replicate n (Some d) @ q) ()"
  using assms(2)
proof (induction n arbitrary: p ys)
  case 0
  then show ?case by simp
next
  case (Suc n)
  then obtain y ys' where ys: "ys = y # ys'" and len: "length ys' = n"
    by (cases ys) auto
  have "uninitialized_value_construct_loop T ((p @ [Some d]) @ ys' @ q) first n
          (length (p @ [Some d]))
        = Return ((p @ [Some d]) @ replicate n (Some d) @ q) ()"
    by (rule Suc.IH [OF len])
  then show ?case using assms(1) ys by simp
qed

lemma copy_n_assign_Return:
  assumes "\<forall>x\<in>set xs. copy_assign_throws T x = None" and "length ys = length xs"
  shows "copy_n T (sp @ map Some xs @ sq) (length sp) (length xs)
           (dp @ map Some ys @ dq) (length dp)
         = Return (dp @ map Some xs @ dq) ()"
  using assms
proof (induction xs arbitrary: sp dp ys)
  case Nil
  then show ?case by simp
next
  case (Cons x xs)
  then obtain y ys' where ys: "ys = y # ys'" and len: "length ys' = length xs"
    by (cases ys) auto
  have good: "\<forall>x\<in>set xs. copy_assign_throws T x = None" and cx: "copy_assign_throws T x = None"
    using Cons.prems(1) by auto
  have "copy_n T ((sp @ [Some x]) @ map Some xs @ sq) (length (sp @ [Some x])) (length xs)
          ((dp @ [Some x]) @ map Some ys' @ dq) (length (dp @ [Some x]))
        = Return ((dp @ [Some x]) @ map Some xs @ dq) ()"
    by (rule Cons.IH [OF good len])
  then show ?case using cx ys by (simp add: list_update_append)
qed

lemma move_assign_at_adjacent:
  assumes "move_assign_throws T z = None"
  shows "move_assign_at T (p @ Some y # Some z # r) (Suc (length p)) (length p)
           = Return (p @ Some z # Some (moved_from T z) # r) ()"
proof -
  have a: "object_at (p @ Some y # Some z # r) (Suc (length p)) = Some z"
    using object_at_mid [of "p @ [Some y]" "Some z" r] by simp
  have b: "object_at (p @ Some y # Some z # r) (length p) = Some y"
    by simp
  have c: "(p @ Some y # Some z # r)[Suc (length p) := Some (moved_from T z)]
             = p @ Some y # Some (moved_from T z) # r"
    by (simp add: list_update_append)
  have d: "(p @ Some y # Some (moved_from T z) # r)[length p := Some z]
             = p @ Some z # Some (moved_from T z) # r"
    by (simp add: list_update_append)
  show ?thesis using assms a b c d by (simp add: move_assign_at_def)
qed

lemma move_loop_shift:
  assumes "\<forall>z\<in>set zs. move_assign_throws T z = None"
  shows "move_loop T (p @ Some y # map Some zs @ q) (Suc (length p)) (length zs) (length p)
           = Return (p @ map Some zs @ Some (if zs = [] then y else moved_from T (last zs)) # q) ()"
  using assms
proof (induction zs arbitrary: p y)
  case Nil
  show ?case by simp
next
  case (Cons z zs)
  have cz: "move_assign_throws T z = None" and rest: "\<forall>z\<in>set zs. move_assign_throws T z = None"
    using Cons.prems by auto
  have step: "move_assign_at T (p @ Some y # Some z # (map Some zs @ q)) (Suc (length p)) (length p)
                = Return (p @ Some z # Some (moved_from T z) # (map Some zs @ q)) ()"
    by (rule move_assign_at_adjacent [OF cz])
  have "move_loop T ((p @ [Some z]) @ Some (moved_from T z) # map Some zs @ q)
          (Suc (length (p @ [Some z]))) (length zs) (length (p @ [Some z]))
        = Return ((p @ [Some z]) @ map Some zs @
                  Some (if zs = [] then moved_from T z else moved_from T (last zs)) # q) ()"
    by (rule Cons.IH [OF rest])
  then show ?case using step by simp
qed

section \<open>Vectors that satisfy the invariant\<close>

text \<open>Under the invariant the block is the elements followed by raw slots.\<close>

lemma map_Some_the: "list_all (\<lambda>s. s \<noteq> None) xs \<Longrightarrow> map Some (map the xs) = xs"
  by (induction xs) auto

lemma all_None_replicate: "list_all (\<lambda>s. s = None) xs \<Longrightarrow> xs = replicate (length xs) None"
  by (induction xs) auto

lemma Vector_inv_block:
  assumes "Vector_inv v"
  shows "block_of v = map Some (elements v) @ replicate (Capacity v - size_m v) None"
    and "length (elements v) = size_m v" and "size_m v \<le> Capacity v"
proof -
  let ?b = "block_of v"
  from assms have len: "length ?b = Capacity v" and le: "size_m v \<le> Capacity v"
    and live: "list_all (\<lambda>s. s \<noteq> None) (take (size_m v) ?b)"
    and raw: "list_all (\<lambda>s. s = None) (drop (size_m v) ?b)"
    by (simp_all add: Vector_inv_def)
  have a: "map Some (map the (take (size_m v) ?b)) = take (size_m v) ?b"
    using live by (rule map_Some_the)
  have b: "drop (size_m v) ?b = replicate (Capacity v - size_m v) None"
    using all_None_replicate [OF raw] len by simp
  have "?b = take (size_m v) ?b @ drop (size_m v) ?b" by simp
  then show "block_of v = map Some (elements v) @ replicate (Capacity v - size_m v) None"
    using a b by (simp add: elements_def slots_def)
  show "length (elements v) = size_m v" using len le by (simp add: elements_def slots_def)
  show "size_m v \<le> Capacity v" by (rule le)
qed

lemma Vector_inv_I:
  assumes "block_of v = map Some xs @ replicate k None" and "size_m v = length xs"
    and "Capacity v = length xs + k"
  shows "Vector_inv v" and "elements v = xs"
  using assms by (simp_all add: Vector_inv_def elements_def slots_def list_all_iff comp_def)

lemma block_of_simps [simp]:
  "block_of (with_block v b) = b"
  "block_of (v\<lparr>size_m := n\<rparr>) = block_of v"
  "Capacity (with_block v b) = Capacity v"
  "Capacity (v\<lparr>size_m := n\<rparr>) = Capacity v"
  "size_m (with_block v b) = size_m v"
  by (simp_all add: block_of_def with_block_def Capacity_def)

lemma vector_of_simps [simp]:
  "block_of (vector_of xs c) = map Some xs @ replicate (c - length xs) None"
  "size_m (vector_of xs c) = length xs"
  "Capacity (vector_of xs c) = c"
  by (simp_all add: vector_of_def block_of_def Capacity_def)

lemma vector_of_inv:
  assumes "length xs \<le> c"
  shows "Vector_inv (vector_of xs c)" and "elements (vector_of xs c) = xs"
  using assms Vector_inv_I [of "vector_of xs c" xs "c - length xs"] by simp_all

lemma Vector_inv_normal:
  assumes "Vector_inv v"
  shows "v = vector_of (elements v) (Capacity v)"
proof -
  have "block_of v = map Some (elements v) @ replicate (Capacity v - size_m v) None"
    and "length (elements v) = size_m v"
    using assms by (simp_all add: Vector_inv_block)
  then show ?thesis
    by (simp add: vector_of_def block_of_def Capacity_def)
qed

lemma Vector_default_simps [simp]:
  "size_m Vector_default = 0" "Capacity Vector_default = 0" "block_of Vector_default = []"
  by (simp_all add: Vector_default_def RawMemory_default_def Capacity_def block_of_def)

lemma Vector_default_vector_of: "Vector_default = vector_of [] 0"
  by (simp add: Vector_default_def RawMemory_default_def vector_of_def)

section \<open>PopBack\<close>

lemma PopBack_Return:
  assumes "length xs \<le> c" and "xs \<noteq> []"
  shows "PopBack (vector_of xs c) = Return (vector_of (butlast xs) c) ()"
proof -
  let ?q = "replicate (c - length xs) (None :: 'a option)"
  have xs: "xs = butlast xs @ [last xs]" using assms(2) by simp
  have l: "length (map Some (butlast xs)) = length xs - 1" by simp
  have blk: "map Some xs @ ?q = map Some (butlast xs) @ Some (last xs) # ?q"
    by (subst xs) simp
  have d: "Destroy (map Some xs @ ?q) (length xs - 1) = Some (map Some (butlast xs) @ None # ?q)"
    unfolding blk l [symmetric] by (rule Destroy_mid)
  have fin: "\<lparr>data_m = \<lparr>buffer_m = map Some (butlast xs) @ None # ?q, capacity_m = c\<rparr>,
              size_m = length xs - 1\<rparr> = vector_of (butlast xs) c"
  proof -
    have "0 < length xs" using assms(2) by simp
    then have "Suc (c - length xs) = c - (length xs - 1)" using assms(1) by linarith
    then show ?thesis by (simp add: vector_of_def flip: replicate_Suc)
  qed
  have "PopBack (vector_of xs c)
          = Return \<lparr>data_m = \<lparr>buffer_m = map Some (butlast xs) @ None # ?q, capacity_m = c\<rparr>,
                    size_m = length xs - 1\<rparr> ()"
    using assms(2) d by (simp add: PopBack_def vector_of_def block_of_def with_block_def)
  then show ?thesis by (simp only: fin)
qed

text \<open>
  Claim C9. \<^verbatim>\<open>PopBack\<close> on an empty vector returns with the vector as it was: nothing
  is thrown and nothing undefined happens. On a non-empty vector it destroys the object in
  the last occupied slot, which is then raw, and \<open>Size\<close> goes down by one; the capacity and
  the other elements stay.
\<close>

theorem PopBack_spec:
  "(size_m v = 0 \<longrightarrow> PopBack v = Return v ()) \<and>
   (Vector_inv v \<and> size_m v \<noteq> 0 \<longrightarrow>
      (\<exists>v'. PopBack v = Return v' () \<and> size_m v' = size_m v - 1 \<and> Capacity v' = Capacity v \<and>
            elements v' = butlast (elements v) \<and>
            object_at (block_of v) (size_m v - 1) = Some (last (elements v)) \<and>
            object_at (block_of v') (size_m v - 1) = None \<and> Vector_inv v'))"
proof (intro conjI impI)
  assume "size_m v = 0"
  then show "PopBack v = Return v ()" by (simp add: PopBack_def)
next
  assume a: "Vector_inv v \<and> size_m v \<noteq> 0"
  let ?xs = "elements v" and ?k = "Capacity v - size_m v"
  from a have blk: "block_of v = map Some ?xs @ replicate ?k None"
    and len: "length ?xs = size_m v" and le: "size_m v \<le> Capacity v"
    by (simp_all add: Vector_inv_block)
  from a len have ne: "?xs \<noteq> []" by auto
  let ?ys = "butlast ?xs" and ?x = "last ?xs"
  have xs: "?xs = ?ys @ [?x]" using ne by simp
  have lys: "length (map Some ?ys) = size_m v - 1" using len by simp
  have blk': "block_of v = map Some ?ys @ Some ?x # replicate ?k None"
    by (subst blk, subst xs) simp
  have d: "Destroy (block_of v) (size_m v - 1) = Some (map Some ?ys @ None # replicate ?k None)"
    unfolding lys [symmetric] by (subst blk', rule Destroy_mid)
  let ?v' = "(with_block v (map Some ?ys @ None # replicate ?k None))\<lparr>size_m := size_m v - 1\<rparr>"
  have r: "PopBack v = Return ?v' ()" using a d by (simp add: PopBack_def)
  have b': "block_of ?v' = map Some ?ys @ replicate (Suc ?k) None" by simp
  have s': "size_m ?v' = length ?ys" using len by simp
  have c': "Capacity ?v' = length ?ys + Suc ?k" using len le a by simp
  have o1: "object_at (block_of v) (size_m v - 1) = Some ?x"
    unfolding lys [symmetric] by (subst blk', rule object_at_mid)
  have o2: "object_at (block_of ?v') (size_m v - 1) = None"
    unfolding lys [symmetric] by (simp del: length_map length_butlast)
  show "\<exists>v'. PopBack v = Return v' () \<and> size_m v' = size_m v - 1 \<and> Capacity v' = Capacity v \<and>
            elements v' = butlast (elements v) \<and>
            object_at (block_of v) (size_m v - 1) = Some (last (elements v)) \<and>
            object_at (block_of v') (size_m v - 1) = None \<and> Vector_inv v'"
    using r Vector_inv_I [OF b' s' c'] o1 o2 by (intro exI [of _ ?v']) simp
qed

theorem PopBack_spec_witness:
  "size_m (Vector_default :: nat Vector) = 0 \<and>
   PopBack (Vector_default :: nat Vector) = Return Vector_default () \<and>
   Vector_inv (vector_of [1, 2, 3 :: nat] 4) \<and> size_m (vector_of [1, 2, 3 :: nat] 4) \<noteq> 0 \<and>
   (\<exists>v'. PopBack (vector_of [1, 2, 3 :: nat] 4) = Return v' () \<and> size_m v' = 2 \<and>
         Capacity v' = 4 \<and> elements v' = [1, 2])"
proof -
  have e: "size_m (Vector_default :: nat Vector) = 0" by (simp add: Vector_default_def)
  have h: "Vector_inv (vector_of [1, 2, 3 :: nat] 4)"
    and el: "elements (vector_of [1, 2, 3 :: nat] 4) = [1, 2, 3]"
    by (simp_all add: vector_of_inv)
  show ?thesis
    using e h el PopBack_spec [of "Vector_default :: nat Vector"]
      PopBack_spec [of "vector_of [1, 2, 3 :: nat] 4"]
    by auto
qed

section \<open>Reserve\<close>

lemma Reserve_noop: "n \<le> Capacity v \<Longrightarrow> Reserve T v n = Return v ()"
  by (simp add: Reserve_def)


lemma Reserve_grow_Return:
  assumes "length xs \<le> c" and "c < n" and "relocates_ok (Reserve_moves T) T xs"
    and fits: "block_fits T n"
  shows "Reserve T (vector_of xs c) n = Return (vector_of xs n) ()"
proof -
  let ?q = "replicate (c - length xs) None"
  let ?src = "map Some xs @ ?q"
  let ?dst = "replicate (length xs) None @ replicate (n - length xs) (None :: 'a option)"
  have le: "length xs \<le> n" using assms(1,2) by simp
  have new: "buffer_m (RawMemory_new T n) = ?dst"
    using Allocate_split [OF le fits] by (simp add: RawMemory_new_def)
  have cap: "capacity_m (RawMemory_new T n) = n" by (simp add: RawMemory_new_def)
  have d: "DestroyN (map Some ys @ ?q) 0 (length xs) = Some (replicate (length xs) None @ ?q)"
    if "length ys = length xs" for ys :: "'a list"
    using DestroyN_live [of "[]" ys ?q] that by simp
  show ?thesis
  proof (cases "Reserve_moves T")
    case True
    then have ok: "\<forall>x\<in>set xs. move_throws T x = None"
      using assms(3) by (simp add: relocates_ok_def)
    have m: "uninitialized_move_n T ?src 0 (length xs) ?dst 0
               = Return (map Some (map (moved_from T) xs) @ ?q,
                         map Some xs @ replicate (n - length xs) None) ()"
      by (rule move_n_Return [OF ok]) simp
    show ?thesis
      using assms(1,2) True m d [of "map (moved_from T) xs"]
      by (simp add: Reserve_def new cap RawMemory_Swap_def vector_of_def block_of_def
          Capacity_def)
  next
    case False
    then have ok: "\<forall>x\<in>set xs. copy_throws T x = None"
      using assms(3) by (simp add: relocates_ok_def)
    have m: "uninitialized_copy_n T ?src 0 (length xs) ?dst 0
               = Return (map Some xs @ ?q, map Some xs @ replicate (n - length xs) None) ()"
      by (rule copy_n_Return [OF ok]) simp
    show ?thesis
      using assms(1,2) False m d [of xs]
      by (simp add: Reserve_def new cap RawMemory_Swap_def vector_of_def block_of_def
          Capacity_def)
  qed
qed

lemma Reserve_grow_Throw:
  assumes "length (xs1 @ bad # xs2) \<le> c" and "c < n"
    and "relocates_ok (Reserve_moves T) T xs1"
    and "(if Reserve_moves T then move_throws T bad else copy_throws T bad) = Some e"
    and fits: "block_fits T n"
  shows "Reserve T (vector_of (xs1 @ bad # xs2) c) n
           = Throw (vector_of ((if Reserve_moves T then map (moved_from T) xs1 else xs1) @ bad # xs2) c) e"
proof -
  let ?xs = "xs1 @ bad # xs2"
  let ?q = "replicate (c - length ?xs) None"
  let ?src = "map Some ?xs @ ?q"
  let ?dst = "replicate (length xs1) None @ replicate (n - length xs1) (None :: 'a option)"
  have le: "length xs1 \<le> n" using assms(1,2) by simp
  have new: "buffer_m (RawMemory_new T n) = ?dst"
    using Allocate_split [OF le fits] by (simp add: RawMemory_new_def)
  show ?thesis
  proof (cases "Reserve_moves T")
    case True
    then have ok: "\<forall>x\<in>set xs1. move_throws T x = None" and bad: "move_throws T bad = Some e"
      using assms(3,4) by (simp_all add: relocates_ok_def)
    have m: "uninitialized_move_n T ?src 0 (length ?xs) ?dst 0
               = Throw (map Some (map (moved_from T) xs1 @ bad # xs2) @ ?q,
                        replicate (length xs1) None @ replicate (n - length xs1) None) e"
      by (rule move_n_Throw [OF ok bad]) simp
    show ?thesis
      using assms(1,2) True m
      by (simp add: Reserve_def new vector_of_def with_block_def block_of_def Capacity_def)
  next
    case False
    then have ok: "\<forall>x\<in>set xs1. copy_throws T x = None" and bad: "copy_throws T bad = Some e"
      using assms(3,4) by (simp_all add: relocates_ok_def)
    have m: "uninitialized_copy_n T ?src 0 (length ?xs) ?dst 0
               = Throw (map Some ?xs @ ?q,
                        replicate (length xs1) None @ replicate (n - length xs1) None) e"
      by (rule copy_n_Throw [OF ok bad]) simp
    show ?thesis
      using assms(1,2) False m
      by (simp add: Reserve_def new vector_of_def with_block_def block_of_def Capacity_def)
  qed
qed




section \<open>Failure during the relocation of Reserve\<close>

text \<open>
  When \<^verbatim>\<open>Reserve\<close> relocates by copy and the copy of an element throws, \<^verbatim>\<open>Reserve\<close>
  throws that exception and the vector is the one before the call. Whenever \<^verbatim>\<open>Reserve\<close>
  throws, the size and the capacity are those before the call and the invariant holds.
\<close>

lemma Reserve_copy_failure:
  assumes "Vector_inv v" and fits: "block_fits T n"
  shows "(\<forall>v' e. Reserve T v n = Throw v' e \<longrightarrow>
            size_m v' = size_m v \<and> Capacity v' = Capacity v \<and> Vector_inv v' \<and>
            (\<not> Reserve_moves T \<longrightarrow> v' = v)) \<and>
         (\<not> Reserve_moves T \<and> Capacity v < n \<and> \<not> relocates_ok False T (elements v) \<longrightarrow>
            (\<exists>e. Reserve T v n = Throw v e \<and>
                 (\<exists>x\<in>set (elements v). copy_throws T x = Some e)))"
proof -
  let ?xs = "elements v" and ?c = "Capacity v"
  have v: "v = vector_of ?xs ?c" using assms(1) by (rule Vector_inv_normal)
  have le: "length ?xs \<le> ?c" and len: "length ?xs = size_m v"
    using assms(1) by (simp_all add: Vector_inv_block)
  have 1: "size_m v' = size_m v \<and> Capacity v' = Capacity v \<and> Vector_inv v' \<and>
            (\<not> Reserve_moves T \<longrightarrow> v' = v)"
    if r: "Reserve T v n = Throw v' e" for v' e
  proof (cases "n \<le> ?c")
    case True
    then show ?thesis using r by (simp add: Reserve_noop)
  next
    case False
    then have lt: "?c < n" by simp
    show ?thesis
    proof (cases "relocates_ok (Reserve_moves T) T ?xs")
      case True
      then show ?thesis using Reserve_grow_Return [OF le lt True fits] v r by simp
    next
      case False
      then obtain xs1 bad xs2 e' where xs: "?xs = xs1 @ bad # xs2"
        and ok: "relocates_ok (Reserve_moves T) T xs1"
        and bad: "(if Reserve_moves T then move_throws T bad else copy_throws T bad) = Some e'"
        by (rule not_relocates_ok)
      let ?ys = "(if Reserve_moves T then map (moved_from T) xs1 else xs1) @ bad # xs2"
      have l: "length (xs1 @ bad # xs2) \<le> ?c" using le xs by simp
      have "Reserve T (vector_of (xs1 @ bad # xs2) ?c) n = Throw (vector_of ?ys ?c) e'"
        by (rule Reserve_grow_Throw [OF l lt ok bad fits])
      then have v': "v' = vector_of ?ys ?c" using r v xs by simp
      have ly: "length ?ys \<le> ?c" and ly': "length ?ys = size_m v" using l len xs by simp_all
      have "\<not> Reserve_moves T \<longrightarrow> v' = v" using v' v xs by simp
      then show ?thesis using v' ly ly' by (simp add: vector_of_inv)
    qed
  qed
  have 2: "\<exists>e. Reserve T v n = Throw v e \<and> (\<exists>x\<in>set (elements v). copy_throws T x = Some e)"
    if nm: "\<not> Reserve_moves T" and lt: "?c < n" and nok: "\<not> relocates_ok False T ?xs"
  proof -
    from nok obtain xs1 bad xs2 e where xs: "?xs = xs1 @ bad # xs2"
      and ok: "relocates_ok False T xs1"
      and bad: "(if False then move_throws T bad else copy_throws T bad) = Some e"
      by (rule not_relocates_ok)
    have bad': "copy_throws T bad = Some e" using bad by simp
    have ok': "relocates_ok (Reserve_moves T) T xs1" using ok nm by simp
    have bad'': "(if Reserve_moves T then move_throws T bad else copy_throws T bad) = Some e"
      using bad' nm by simp
    have l: "length (xs1 @ bad # xs2) \<le> ?c" using le xs by simp
    have a: "Reserve T v n = Throw v e"
      using Reserve_grow_Throw [OF l lt ok' bad'' fits] nm v xs by simp
    have c: "\<exists>x\<in>set ?xs. copy_throws T x = Some e" using xs bad' by auto
    show ?thesis using a c by blast
  qed
  show ?thesis using 1 2 by blast
qed

section \<open>The copy constructor\<close>

lemma Vector_copy_Return:
  assumes "length xs \<le> c" and "relocates_ok False T xs" and fits: "block_fits T (length xs)"
  shows "Vector_copy T (vector_of xs c) = Return () (vector_of xs (length xs))"
proof -
  have ok: "\<forall>x\<in>set xs. copy_throws T x = None" using assms(2) by (simp add: relocates_ok_def)
  have "uninitialized_copy_n T (map Some xs @ replicate (c - length xs) None) 0 (length xs)
          (replicate (length xs) None @ []) 0
        = Return (map Some xs @ replicate (c - length xs) None, map Some xs @ []) ()"
    by (rule copy_n_Return [OF ok]) simp
  then show ?thesis
    by (simp add: Vector_copy_def RawMemory_new_def Allocate_replicate [OF fits] vector_of_def
        block_of_def)
qed

lemma Vector_copy_Return_D:
  assumes "Vector_copy T A = Return u B"
  shows "size_m B = size_m A" and "Capacity B = size_m A" and "elements B = elements A"
proof -
  let ?dst = "buffer_m (RawMemory_new T (size_m A))"
  let ?rel = "uninitialized_copy_n T (block_of A) 0 (size_m A) ?dst 0"
  from assms obtain s d u' where rel: "?rel = Return (s, d) u'"
    by (cases ?rel) (auto simp: Vector_copy_def Let_def)
  from assms rel have B: "size_m B = size_m A \<and> Capacity B = size_m A \<and> block_of B = d"
    by (auto simp: Vector_copy_def Let_def Capacity_def block_of_def RawMemory_new_def)
  from rel
  have "(if False then uninitialized_move_n T (block_of A) 0 (size_m A) ?dst 0 else ?rel)
          = Return (s, d) u'"
    by simp
  then have "take (size_m A) d = take (size_m A) (block_of A)"
    by (rule relocation_Return_D(1))
  then have "elements B = elements A" using B by (simp add: elements_def slots_def)
  then show "size_m B = size_m A" and "Capacity B = size_m A" and "elements B = elements A"
    using B by simp_all
qed

text \<open>
  Claim C10. The copy constructor, when no element throws on copy (and the byte count of
  the new block fits \<^verbatim>\<open>size_t\<close>, as it does for the size of a vector that exists), returns
  a vector; and whenever it returns a vector \<open>B\<close>, the size of \<open>B\<close> is the size of the
  source, the capacity of \<open>B\<close> is the size of the source (not its capacity), and \<open>B\<close> holds
  the source's elements.
\<close>

theorem Vector_copy_spec:
  assumes "Vector_inv A"
  shows "(relocates_ok False T (elements A) \<and> block_fits T (size_m A) \<longrightarrow>
            (\<exists>B. Vector_copy T A = Return () B \<and> Vector_inv B)) \<and>
         (\<forall>B u. Vector_copy T A = Return u B \<longrightarrow>
                 size_m B = size_m A \<and> Capacity B = size_m A \<and> elements B = elements A)"
proof -
  let ?xs = "elements A" and ?c = "Capacity A"
  have A: "A = vector_of ?xs ?c" using assms by (rule Vector_inv_normal)
  have le: "length ?xs \<le> ?c" and len: "length ?xs = size_m A"
    using assms by (simp_all add: Vector_inv_block)
  have ret: "Vector_copy T A = Return () (vector_of ?xs (length ?xs))"
    if "relocates_ok False T ?xs" and "block_fits T (size_m A)"
    using Vector_copy_Return [OF le that(1)] that(2) A len by simp
  have 1: "relocates_ok False T ?xs \<and> block_fits T (size_m A) \<longrightarrow>
             (\<exists>B. Vector_copy T A = Return () B \<and> Vector_inv B)"
    using ret by (auto simp: vector_of_inv)
  have 2: "size_m B = size_m A \<and> Capacity B = size_m A \<and> elements B = elements A"
    if r: "Vector_copy T A = Return u B" for B u
    using Vector_copy_Return_D [OF r] by simp
  show ?thesis using 1 2 by blast
qed

theorem Vector_copy_spec_witness:
  "Vector_inv (vector_of [1, 2, 3 :: nat] 8) \<and>
   relocates_ok False plain_type (elements (vector_of [1, 2, 3] 8)) \<and>
   block_fits plain_type (size_m (vector_of [1, 2, 3 :: nat] 8)) \<and>
   (\<exists>B. Vector_copy plain_type (vector_of [1, 2, 3] 8) = Return () B \<and> size_m B = 3 \<and>
        Capacity B = 3 \<and> elements B = [1, 2, 3])"
proof -
  let ?V = "vector_of [1, 2, 3 :: nat] 8"
  have inv: "Vector_inv ?V" and el: "elements ?V = [1, 2, 3]"
    by (simp_all add: vector_of_inv)
  have ok: "relocates_ok False plain_type (elements ?V)"
    by (simp add: relocates_ok_def plain_type_def)
  have fits: "block_fits plain_type (size_m ?V)"
    by (simp add: block_fits_def plain_type_def)
  from Vector_copy_spec [OF inv, where T = plain_type] ok fits
  obtain B where b: "Vector_copy plain_type ?V = Return () B"
    and c: "size_m B = size_m ?V \<and> Capacity B = size_m ?V \<and> elements B = elements ?V"
    by blast
  show ?thesis using inv ok fits b c el by auto
qed

section \<open>Moves\<close>

lemma RawMemory_Swap_eq: "RawMemory_Swap (a :: 'a RawMemory) b = (b, a)"
  by (simp add: RawMemory_Swap_def)

lemma RawMemory_move_ctor_eq: "RawMemory_move_ctor (m :: 'a RawMemory) = (m, RawMemory_default)"
  by (simp add: RawMemory_move_ctor_def RawMemory_Swap_eq)

lemma RawMemory_move_assign_eq: "RawMemory_move_assign (a :: 'a RawMemory) b = (b, a)"
  by (simp add: RawMemory_move_assign_def RawMemory_Swap_eq)

lemma Swap_eq: "Swap (a :: 'a Vector) b = (b, a)"
  by (simp add: Swap_def RawMemory_Swap_eq)

lemma Vector_move_eq: "Vector_move (A :: 'a Vector) = (A, Vector_default)"
  by (simp add: Vector_move_def RawMemory_move_ctor_eq Vector_default_def)

lemma Vector_move_assign_fits:
  "size_m A \<le> Capacity B \<Longrightarrow> Vector_move_assign T B A = Return (A, B) ()"
  by (simp add: Vector_move_assign_def noexcept_def Swap_eq)

lemma Vector_move_assign_grows:
  assumes "Vector_inv B" and "Capacity B < size_m A"
    and "relocates_ok (Reserve_moves T) T (elements B)" and "block_fits T (size_m A)"
  shows "Vector_move_assign T B A = Return (A, vector_of (elements B) (size_m A)) ()"
proof -
  have B: "B = vector_of (elements B) (Capacity B)" using assms(1) by (rule Vector_inv_normal)
  have le: "length (elements B) \<le> Capacity B" using assms(1) by (simp add: Vector_inv_block)
  have "Reserve T B (size_m A) = Return (vector_of (elements B) (size_m A)) ()"
    using Reserve_grow_Return [OF le assms(2,3,4)] B by simp
  then show ?thesis using assms(2) by (simp add: Vector_move_assign_def noexcept_def Swap_eq)
qed

lemma Vector_move_assign_terminates:
  assumes "Vector_inv B" and "Capacity B < size_m A"
    and "\<not> relocates_ok (Reserve_moves T) T (elements B)" and "block_fits T (size_m A)"
  shows "Vector_move_assign T B A = Terminate"
proof -
  have B: "B = vector_of (elements B) (Capacity B)" using assms(1) by (rule Vector_inv_normal)
  have le: "length (elements B) \<le> Capacity B" using assms(1) by (simp add: Vector_inv_block)
  from assms(3) obtain xs1 bad xs2 e where xs: "elements B = xs1 @ bad # xs2"
    and ok: "relocates_ok (Reserve_moves T) T xs1"
    and bad: "(if Reserve_moves T then move_throws T bad else copy_throws T bad) = Some e"
    by (rule not_relocates_ok)
  have "length (xs1 @ bad # xs2) \<le> Capacity B" using le xs by simp
  from Reserve_grow_Throw [OF this assms(2) ok bad assms(4)]
  have "\<exists>w. Reserve T B (size_m A) = Throw w e"
    using B xs by metis
  then show ?thesis using assms(2) by (auto simp: Vector_move_assign_def noexcept_def)
qed

text \<open>
  Claim C4, as the code has it. The move constructors of \<^verbatim>\<open>RawMemory\<close> and of \<^verbatim>\<open>Vector\<close>
  hand the storage over and leave the source empty, with size 0 and capacity 0. The two
  move assignments swap: the target ends with what the source had (block, size, capacity),
  and the source ends with what the target had; when the source's size exceeded the target's
  capacity the target's elements are first relocated, so that the source ends with the
  target's elements in a block of as many slots as the source had elements. A relocation
  that throws there ends the program. (The block of that relocation has as many slots as
  the source has elements; its byte count fits \<^verbatim>\<open>size_t\<close>, as it does for the size of a
  vector that exists.)
\<close>

theorem move_spec:
  "RawMemory_move_ctor (m :: 'a RawMemory) = (m, RawMemory_default) \<and>
   capacity_m (RawMemory_default :: 'a RawMemory) = 0 \<and>
   buffer_m (RawMemory_default :: 'a RawMemory) = [] \<and>
   RawMemory_move_assign m m' = (m', m) \<and>
   Vector_move (A :: 'a Vector) = (A, Vector_default) \<and>
   size_m (Vector_default :: 'a Vector) = 0 \<and> Capacity (Vector_default :: 'a Vector) = 0 \<and>
   (size_m A \<le> Capacity B \<longrightarrow> Vector_move_assign T B A = Return (A, B) ()) \<and>
   (Vector_inv B \<and> Capacity B < size_m A \<and> relocates_ok (Reserve_moves T) T (elements B) \<and>
    block_fits T (size_m A) \<longrightarrow>
      (\<exists>B'. Vector_move_assign T B A = Return (A, B') () \<and> elements B' = elements B \<and>
            size_m B' = size_m B \<and> Capacity B' = size_m A)) \<and>
   (Vector_inv B \<and> Capacity B < size_m A \<and> \<not> relocates_ok (Reserve_moves T) T (elements B) \<and>
    block_fits T (size_m A) \<longrightarrow>
      Vector_move_assign T B A = Terminate)"
proof -
  have grow: "\<exists>B'. Vector_move_assign T B A = Return (A, B') () \<and> elements B' = elements B \<and>
            size_m B' = size_m B \<and> Capacity B' = size_m A"
    if "Vector_inv B" and "Capacity B < size_m A"
      and "relocates_ok (Reserve_moves T) T (elements B)" and "block_fits T (size_m A)"
  proof -
    have "length (elements B) = size_m B" and "size_m B \<le> Capacity B"
      using that(1) by (simp_all add: Vector_inv_block)
    then have "length (elements B) \<le> size_m A" and "length (elements B) = size_m B"
      using that(2) by simp_all
    then show ?thesis
      using Vector_move_assign_grows [OF that]
      by (intro exI [of _ "vector_of (elements B) (size_m A)"]) (simp add: vector_of_inv)
  qed
  show ?thesis
    using grow
    by (simp add: RawMemory_move_ctor_eq RawMemory_move_assign_eq Vector_move_eq
        Vector_move_assign_fits Vector_move_assign_terminates RawMemory_default_def)
qed

theorem move_spec_witness:
  "size_m (vector_of [1, 2 :: nat] 2) \<le> Capacity (vector_of [7 :: nat] 4) \<and>
   Vector_move_assign plain_type (vector_of [7] 4) (vector_of [1, 2] 2)
     = Return (vector_of [1, 2] 2, vector_of [7] 4) () \<and>
   Vector_inv (vector_of [7 :: nat] 1) \<and>
   Capacity (vector_of [7 :: nat] 1) < size_m (vector_of [1, 2 :: nat] 2) \<and>
   relocates_ok (Reserve_moves plain_type) plain_type (elements (vector_of [7] 1)) \<and>
   block_fits plain_type (size_m (vector_of [1, 2 :: nat] 2)) \<and>
   (\<exists>B'. Vector_move_assign plain_type (vector_of [7] 1) (vector_of [1, 2] 2)
            = Return (vector_of [1, 2] 2, B') () \<and>
         elements B' = [7] \<and> size_m B' = 1 \<and> Capacity B' = 2) \<and>
   Vector_inv (vector_of [13 :: nat] 1) \<and>
   Capacity (vector_of [13 :: nat] 1) < size_m (vector_of [1, 2 :: nat] 2) \<and>
   \<not> relocates_ok (Reserve_moves throwing_type) throwing_type (elements (vector_of [13] 1)) \<and>
   block_fits throwing_type (size_m (vector_of [1, 2 :: nat] 2)) \<and>
   Vector_move_assign throwing_type (vector_of [13] 1) (vector_of [1, 2] 2) = Terminate"
proof -
  let ?A = "vector_of [1, 2 :: nat] 2"
  have inv: "Vector_inv (vector_of [7 :: nat] 1)" and el: "elements (vector_of [7 :: nat] 1) = [7]"
    and inv13: "Vector_inv (vector_of [13 :: nat] 1)"
    and el13: "elements (vector_of [13 :: nat] 1) = [13]"
    by (simp_all add: vector_of_inv)
  have ok: "relocates_ok (Reserve_moves plain_type) plain_type (elements (vector_of [7] 1))"
    by (simp add: relocates_ok_def plain_type_def)
  have nok: "\<not> relocates_ok (Reserve_moves throwing_type) throwing_type
                 (elements (vector_of [13] 1))"
    unfolding el13 by (simp add: relocates_ok_def throwing_type_def Reserve_moves_def)
  have sz: "size_m ?A \<le> Capacity (vector_of [7 :: nat] 4)"
      "Capacity (vector_of [7 :: nat] 1) < size_m ?A"
      "Capacity (vector_of [13 :: nat] 1) < size_m ?A"
    by simp_all
  have fits: "block_fits plain_type (size_m ?A)" "block_fits throwing_type (size_m ?A)"
    by (simp_all add: block_fits_def plain_type_def throwing_type_def)
  show ?thesis
    using inv el inv13 ok nok sz fits
      move_spec [where A = ?A and B = "vector_of [7] 4" and T = plain_type]
      move_spec [where A = ?A and B = "vector_of [7] 1" and T = plain_type]
      move_spec [where A = ?A and B = "vector_of [13] 1" and T = throwing_type]
    by auto
qed

text \<open>
  Claim C4 as stated fails for move assignment: after \<^verbatim>\<open>B = std::move(A)\<close> with
  \<open>A = [1, 2]\<close> and \<open>B = [7]\<close> in four slots, \<open>A\<close> holds \<open>[7]\<close> with size 1 and capacity 4;
  and the handle that was move-assigned from holds the target's old block.
\<close>

theorem move_assign_source_not_empty:
  "Vector_move_assign plain_type (vector_of [7] 4) (vector_of [1, 2] 2)
     = Return (vector_of [1, 2] 2, vector_of [7] 4) () \<and>
   size_m (vector_of [7 :: nat] 4) = 1 \<and> Capacity (vector_of [7 :: nat] 4) = 4 \<and>
   elements (vector_of [7 :: nat] 4) = [7] \<and>
   snd (RawMemory_move_assign (RawMemory_new plain_type 3) (RawMemory_new plain_type 5))
     = RawMemory_new plain_type 3 \<and>
   capacity_m (RawMemory_new plain_type 3) = 3"
  by (simp add: Vector_move_assign_fits vector_of_inv RawMemory_move_assign_eq RawMemory_new_def)

section \<open>EmplaceBack and PushBack\<close>

lemma EmplaceBack_Inl [simp]: "EmplaceBack T v (Inl e) = Throw v e"
  by (simp add: EmplaceBack_def)

lemma EmplaceBack_in_place:
  assumes "length xs < c"
  shows "EmplaceBack T (vector_of xs c) (Inr x) = Return (vector_of (xs @ [x]) c) (length xs)"
proof -
  have "replicate (c - length xs) (None :: 'a option) = None # replicate (c - length xs - 1) None"
    using assms by (cases "c - length xs") simp_all
  then have "construct_at (map Some xs @ replicate (c - length xs) None) (length xs) x
          = Some (map Some xs @ Some x # replicate (c - length xs - 1) None)"
    using construct_at_mid [of "map Some xs" None "replicate (c - length xs - 1) None" x] by simp
  then show ?thesis
    using assms by (simp add: EmplaceBack_def vector_of_def block_of_def Capacity_def with_block_def)
qed

lemma EmplaceBack_grow_empty:
  assumes "block_fits T 1"
  shows "EmplaceBack T (vector_of [] 0) (Inr x) = Return (vector_of [x] 1) 0"
  using Allocate_replicate [OF assms]
  by (simp add: EmplaceBack_def vector_of_def RawMemory_new_def block_of_def
      Capacity_def construct_at_def uninitialized_move_n_def uninitialized_copy_n_def
      RawMemory_move_assign_eq)

text \<open>The new block of a growing append, with the new object in it.\<close>

lemma grown_block:
  assumes "0 < n" and fits: "block_fits T (n * 2)"
  shows "RawMemory_new T (size_t_mul n 2)
           = \<lparr>buffer_m = Allocate T (n * 2), capacity_m = n * 2\<rparr>"
    and "construct_at (Allocate T (n * 2)) n x
           = Some (replicate n None @ Some x # replicate (n - 1) None)"
proof -
  show "RawMemory_new T (size_t_mul n 2)
           = \<lparr>buffer_m = Allocate T (n * 2), capacity_m = n * 2\<rparr>"
    using size_t_mul_2 [OF fits] by (simp add: RawMemory_new_def)
  have "Allocate T (n * 2) = replicate n None @ replicate n None"
    using Allocate_replicate [OF fits] by (simp add: replicate_add [symmetric] mult_2_right)
  moreover have "replicate n (None :: 'a option) = None # replicate (n - 1) None"
    using assms(1) by (cases n) simp_all
  ultimately have "Allocate T (n * 2) = replicate n None @ None # replicate (n - 1) None"
    by simp
  then show "construct_at (Allocate T (n * 2)) n x
           = Some (replicate n None @ Some x # replicate (n - 1) None)"
    using construct_at_mid [of "replicate n None" None "replicate (n - 1) None" x] by simp
qed

lemma EmplaceBack_grow_nonempty:
  assumes "relocates_ok (EmplaceBack_moves T) T xs" and "xs \<noteq> []"
    and fits: "block_fits T (length xs * 2)"
  shows "EmplaceBack T (vector_of xs (length xs)) (Inr x)
           = Return (vector_of (xs @ [x]) (length xs * 2)) (length xs)"
proof -
  let ?n = "length xs"
  let ?dq = "Some x # replicate (?n - 1) None"
  have pos: "0 < ?n" using assms(2) by simp
  note new = grown_block [OF pos fits]
  have d: "DestroyN (map Some ys @ []) 0 ?n = Some (replicate ?n None @ [])"
    if "length ys = ?n" for ys :: "'a list"
    using DestroyN_live [of "[]" ys "[]"] that by simp
  have fin: "\<lparr>data_m = \<lparr>buffer_m = map Some xs @ ?dq, capacity_m = ?n * 2\<rparr>, size_m = Suc ?n\<rparr>
               = vector_of (xs @ [x]) (?n * 2)"
    using pos by (simp add: vector_of_def)
  show ?thesis
  proof (cases "EmplaceBack_moves T")
    case True
    then have ok: "\<forall>x\<in>set xs. move_throws T x = None"
      using assms by (simp add: relocates_ok_def)
    have m: "uninitialized_move_n T (map Some xs @ []) 0 ?n (replicate ?n None @ ?dq) 0
               = Return (map Some (map (moved_from T) xs) @ [], map Some xs @ ?dq) ()"
      by (rule move_n_Return [OF ok]) simp
    have "EmplaceBack T (vector_of xs ?n) (Inr x)
            = Return \<lparr>data_m = \<lparr>buffer_m = map Some xs @ ?dq, capacity_m = ?n * 2\<rparr>,
                      size_m = Suc ?n\<rparr> ?n"
      using True m d [of "map (moved_from T) xs"] new(2) [of x] assms(2)
      by (simp add: EmplaceBack_def new(1) RawMemory_move_assign_eq vector_of_def
          block_of_def Capacity_def)
    then show ?thesis by (simp only: fin)
  next
    case False
    then have ok: "\<forall>x\<in>set xs. copy_throws T x = None"
      using assms by (simp add: relocates_ok_def)
    have m: "uninitialized_copy_n T (map Some xs @ []) 0 ?n (replicate ?n None @ ?dq) 0
               = Return (map Some xs @ [], map Some xs @ ?dq) ()"
      by (rule copy_n_Return [OF ok]) simp
    have "EmplaceBack T (vector_of xs ?n) (Inr x)
            = Return \<lparr>data_m = \<lparr>buffer_m = map Some xs @ ?dq, capacity_m = ?n * 2\<rparr>,
                      size_m = Suc ?n\<rparr> ?n"
      using False m d [of xs] new(2) [of x] assms(2)
      by (simp add: EmplaceBack_def new(1) RawMemory_move_assign_eq vector_of_def
          block_of_def Capacity_def)
    then show ?thesis by (simp only: fin)
  qed
qed

text \<open>
  A growing append whose relocation throws: the exception leaves \<^verbatim>\<open>EmplaceBack\<close>, the
  vector keeps its block, and after a relocation by move the elements before the one that
  threw are moved-from.
\<close>

lemma EmplaceBack_grow_Throw:
  assumes xs: "xs = xs1 @ bad # xs2"
    and "relocates_ok (EmplaceBack_moves T) T xs1"
    and "(if EmplaceBack_moves T then move_throws T bad else copy_throws T bad) = Some e"
    and fits: "block_fits T (length xs * 2)"
  shows "EmplaceBack T (vector_of xs (length xs)) (Inr x)
           = Throw (vector_of ((if EmplaceBack_moves T then map (moved_from T) xs1 else xs1)
                                 @ bad # xs2) (length xs)) e"
proof -
  let ?n = "length xs"
  let ?k = "length xs1"
  let ?dq = "replicate (?n - ?k) None @ Some x # replicate (?n - 1) None"
  have pos: "0 < ?n" and k: "?k \<le> ?n" and ne: "xs \<noteq> []" using xs by simp_all
  note new = grown_block [OF pos fits]
  have split: "replicate ?n None @ Some x # replicate (?n - 1) None = replicate ?k None @ ?dq"
    using k by (simp add: replicate_add [symmetric])
  have len: "length (xs1 @ bad # xs2) = ?n" using xs by simp
  show ?thesis
  proof (cases "EmplaceBack_moves T")
    case True
    then have ok: "\<forall>x\<in>set xs1. move_throws T x = None" and bad: "move_throws T bad = Some e"
      using assms(2,3) by (simp_all add: relocates_ok_def)
    have "uninitialized_move_n T (map Some (xs1 @ bad # xs2) @ []) 0 (length (xs1 @ bad # xs2))
            (replicate ?k None @ ?dq) 0
          = Throw (map Some (map (moved_from T) xs1 @ bad # xs2) @ [], replicate ?k None @ ?dq) e"
      by (rule move_n_Throw [OF ok bad]) simp
    then have m: "uninitialized_move_n T (map Some xs) 0 ?n
                    (replicate ?n None @ Some x # replicate (?n - 1) None) 0
          = Throw (map Some (map (moved_from T) xs1 @ bad # xs2), replicate ?k None @ ?dq) e"
      unfolding len split xs [symmetric] by simp
    have "EmplaceBack T (vector_of xs ?n) (Inr x)
            = Throw \<lparr>data_m = \<lparr>buffer_m = map Some (map (moved_from T) xs1 @ bad # xs2),
                                capacity_m = ?n\<rparr>, size_m = ?n\<rparr> e"
      using True m new(2) [of x] ne
      by (simp add: EmplaceBack_def new(1) vector_of_def block_of_def Capacity_def with_block_def)
    then show ?thesis using True xs by (simp add: vector_of_def)
  next
    case False
    then have ok: "\<forall>x\<in>set xs1. copy_throws T x = None" and bad: "copy_throws T bad = Some e"
      using assms(2,3) by (simp_all add: relocates_ok_def)
    have "uninitialized_copy_n T (map Some (xs1 @ bad # xs2) @ []) 0 (length (xs1 @ bad # xs2))
            (replicate ?k None @ ?dq) 0
          = Throw (map Some (xs1 @ bad # xs2) @ [], replicate ?k None @ ?dq) e"
      by (rule copy_n_Throw [OF ok bad]) simp
    then have m: "uninitialized_copy_n T (map Some xs) 0 ?n
                    (replicate ?n None @ Some x # replicate (?n - 1) None) 0
          = Throw (map Some xs, replicate ?k None @ ?dq) e"
      unfolding len split xs [symmetric] by simp
    have "EmplaceBack T (vector_of xs ?n) (Inr x)
            = Throw \<lparr>data_m = \<lparr>buffer_m = map Some xs, capacity_m = ?n\<rparr>, size_m = ?n\<rparr> e"
      using False m new(2) [of x] ne
      by (simp add: EmplaceBack_def new(1) vector_of_def block_of_def Capacity_def with_block_def)
    then show ?thesis using False xs by (simp add: vector_of_def)
  qed
qed

lemma EmplaceBack_grow:
  assumes "relocates_ok (EmplaceBack_moves T) T xs" and fits: "block_fits T (2 * (length xs + 1))"
  shows "EmplaceBack T (vector_of xs (length xs)) (Inr x)
           = Return (vector_of (xs @ [x]) (if length xs = 0 then 1 else length xs * 2)) (length xs)"
proof -
  have f1: "block_fits T 1" and f2: "block_fits T (length xs * 2)"
    using fits by (rule block_fits_mono, simp)+
  show ?thesis
    using EmplaceBack_grow_nonempty [OF assms(1) _ f2, of x] EmplaceBack_grow_empty [OF f1, of x]
    by (cases "xs = []") simp_all
qed

text \<open>One append to a vector in normal form, whichever branch it takes.\<close>

lemma EmplaceBack_Return:
  assumes "length xs \<le> c" and "length xs < c \<or> relocates_ok (EmplaceBack_moves T) T xs"
    and fits: "block_fits T (2 * (length xs + 1))"
  shows "EmplaceBack T (vector_of xs c) (Inr x)
           = Return (vector_of (xs @ [x])
                       (if length xs = c then (if length xs = 0 then 1 else length xs * 2) else c))
                    (length xs)"
proof (cases "length xs = c")
  case True
  then have "relocates_ok (EmplaceBack_moves T) T xs" using assms(2) by simp
  then show ?thesis using EmplaceBack_grow [OF _ fits, of x] True by auto
next
  case False
  then have "length xs < c" using assms(1) by simp
  then show ?thesis using EmplaceBack_in_place [of xs c T x] False by simp
qed

text \<open>Conversely, an append that returns has taken one of these two ways.\<close>

lemma EmplaceBack_Return_D:
  assumes "length xs \<le> c" and fits: "block_fits T (2 * (length xs + 1))"
    and r: "EmplaceBack T (vector_of xs c) a = Return v1 i"
  shows "\<exists>x. a = Inr x \<and> i = length xs \<and>
             (length xs < c \<or> relocates_ok (EmplaceBack_moves T) T xs) \<and>
             v1 = vector_of (xs @ [x])
                    (if length xs = c then (if length xs = 0 then 1 else length xs * 2) else c)"
proof (cases a)
  case (Inl e)
  then show ?thesis using r by simp
next
  case (Inr x)
  have ok: "length xs < c \<or> relocates_ok (EmplaceBack_moves T) T xs"
  proof (rule ccontr)
    assume "\<not> ?thesis"
    then have c: "c = length xs" and nok: "\<not> relocates_ok (EmplaceBack_moves T) T xs"
      using assms(1) by simp_all
    from nok obtain xs1 bad xs2 e where xs: "xs = xs1 @ bad # xs2"
      and ok1: "relocates_ok (EmplaceBack_moves T) T xs1"
      and bad: "(if EmplaceBack_moves T then move_throws T bad else copy_throws T bad) = Some e"
      by (rule not_relocates_ok)
    have f2: "block_fits T (length xs * 2)" using fits by (rule block_fits_mono) simp
    from EmplaceBack_grow_Throw [OF xs ok1 bad f2, of x]
    have "\<exists>w. EmplaceBack T (vector_of xs c) a = Throw w e" unfolding c Inr by blast
    then show False using r by auto
  qed
  let ?c1 = "if length xs = c then (if length xs = 0 then 1 else length xs * 2) else c"
  have e: "EmplaceBack T (vector_of xs c) (Inr x) = Return (vector_of (xs @ [x]) ?c1) (length xs)"
    by (rule EmplaceBack_Return [OF assms(1) ok fits])
  have "Return v1 i = Return (vector_of (xs @ [x]) ?c1) (length xs)"
    using r [unfolded Inr, symmetric] e by (rule trans)
  then have "v1 = vector_of (xs @ [x]) ?c1 \<and> i = length xs" by (simp only: outcome.inject)
  then show ?thesis using Inr ok by blast
qed

lemma PushBack_Return:
  assumes "length xs \<le> c" and "relocates_ok (EmplaceBack_moves T) T xs"
    and "copy_throws T x = None" and "block_fits T (2 * (length xs + 1))"
  shows "PushBack T (vector_of xs c) x
           = Return (vector_of (xs @ [x])
                       (if length xs = c then (if length xs = 0 then 1 else length xs * 2) else c))
                    ()"
  using EmplaceBack_Return [OF assms(1) _ assms(4), of x] assms(2,3)
  by (simp add: PushBack_def copy_construct_def discard_result_def)

lemma PushBack_all_Return:
  assumes "length xs \<le> c" and "relocates_ok (EmplaceBack_moves T) T (xs @ ys)"
    and "relocates_ok False T ys" and "block_fits T (2 * (length xs + length ys))"
  shows "\<exists>c'. length (xs @ ys) \<le> c' \<and>
              PushBack_all T (vector_of xs c) ys = Return (vector_of (xs @ ys) c') ()"
  using assms
proof (induction ys arbitrary: xs c)
  case Nil
  then show ?case by auto
next
  case (Cons y ys)
  let ?c = "if length xs = c then (if length xs = 0 then 1 else length xs * 2) else c"
  have okx: "relocates_ok (EmplaceBack_moves T) T xs"
    and ok': "relocates_ok (EmplaceBack_moves T) T ((xs @ [y]) @ ys)"
    and cy: "copy_throws T y = None" and cys: "relocates_ok False T ys"
    using Cons.prems(2,3) by (simp_all add: relocates_ok_def)
  have f1: "block_fits T (2 * (length xs + 1))"
    using Cons.prems(4) by (rule block_fits_mono) simp
  have f2: "block_fits T (2 * (length (xs @ [y]) + length ys))"
    using Cons.prems(4) by simp
  have step: "PushBack T (vector_of xs c) y = Return (vector_of (xs @ [y]) ?c) ()"
    by (rule PushBack_Return [OF Cons.prems(1) okx cy f1])
  have le: "length (xs @ [y]) \<le> ?c" using Cons.prems(1) by auto
  from Cons.IH [OF le ok' cys f2] obtain c' where "length ((xs @ [y]) @ ys) \<le> c'"
    and "PushBack_all T (vector_of (xs @ [y]) ?c) ys = Return (vector_of ((xs @ [y]) @ ys) c') ()"
    by blast
  then show ?case using step by (intro exI [of _ c']) simp
qed

text \<open>Each of the three ways to append is \<^verbatim>\<open>EmplaceBack\<close> on the new element.\<close>

lemma append_one_eq:
  "append_one T v a = discard_result (EmplaceBack T v (new_element T a))"
  by (cases a) (simp_all add: PushBack_def PushBack_rvalue_def)

lemma append_all_Return:
  assumes "length xs \<le> c" and "map (new_element T) cs = map Inr ys"
    and "relocates_ok (EmplaceBack_moves T) T (xs @ ys)"
    and "block_fits T (2 * (length xs + length cs))"
  shows "\<exists>c'. length (xs @ ys) \<le> c' \<and>
              append_all T (vector_of xs c) cs = Return (vector_of (xs @ ys) c') ()"
  using assms
proof (induction cs arbitrary: xs c ys)
  case Nil
  then show ?case by auto
next
  case (Cons a cs)
  from Cons.prems(2) obtain y ys' where ys: "ys = y # ys'" and a: "new_element T a = Inr y"
    and rest: "map (new_element T) cs = map Inr ys'"
    by (cases ys) auto
  let ?c = "if length xs = c then (if length xs = 0 then 1 else length xs * 2) else c"
  have okx: "length xs < c \<or> relocates_ok (EmplaceBack_moves T) T xs"
    and ok': "relocates_ok (EmplaceBack_moves T) T ((xs @ [y]) @ ys')"
    using Cons.prems(3) ys by (simp_all add: relocates_ok_def)
  have f1: "block_fits T (2 * (length xs + 1))"
    using Cons.prems(4) by (rule block_fits_mono) simp
  have f2: "block_fits T (2 * (length (xs @ [y]) + length cs))"
    using Cons.prems(4) by simp
  have "EmplaceBack T (vector_of xs c) (Inr y) = Return (vector_of (xs @ [y]) ?c) (length xs)"
    by (rule EmplaceBack_Return [OF Cons.prems(1) okx f1])
  then have step: "append_one T (vector_of xs c) a = Return (vector_of (xs @ [y]) ?c) ()"
    using a by (simp add: append_one_eq discard_result_def)
  have le: "length (xs @ [y]) \<le> ?c" using Cons.prems(1) by auto
  from Cons.IH [OF le rest ok' f2] obtain c' where "length ((xs @ [y]) @ ys') \<le> c'"
    and "append_all T (vector_of (xs @ [y]) ?c) cs = Return (vector_of ((xs @ [y]) @ ys') c') ()"
    by blast
  then show ?case using step ys by (intro exI [of _ c']) simp
qed

lemma append_all_Return_D:
  assumes "length xs \<le> c" and "block_fits T (2 * (length xs + length cs))"
    and "append_all T (vector_of xs c) cs = Return v' u"
  shows "\<exists>ys c'. map (new_element T) cs = map Inr ys \<and> length (xs @ ys) \<le> c' \<and>
                 v' = vector_of (xs @ ys) c'"
  using assms
proof (induction cs arbitrary: xs c)
  case Nil
  then show ?case by auto
next
  case (Cons a cs)
  let ?v = "vector_of xs c"
  let ?c = "if length xs = c then (if length xs = 0 then 1 else length xs * 2) else c"
  from Cons.prems(3) obtain v1 u1 where s1: "append_one T ?v a = Return v1 u1"
    and rest: "append_all T v1 cs = Return v' u"
    by (cases "append_one T ?v a") simp_all
  from s1 obtain i where e: "EmplaceBack T ?v (new_element T a) = Return v1 i"
    by (cases "EmplaceBack T ?v (new_element T a)")
      (simp_all add: append_one_eq discard_result_def)
  have f1: "block_fits T (2 * (length xs + 1))"
    using Cons.prems(2) by (rule block_fits_mono) simp
  from EmplaceBack_Return_D [OF Cons.prems(1) f1 e]
  obtain y where a: "new_element T a = Inr y" and v1: "v1 = vector_of (xs @ [y]) ?c"
    by blast
  have f2: "block_fits T (2 * (length (xs @ [y]) + length cs))"
    using Cons.prems(2) by simp
  have le: "length (xs @ [y]) \<le> ?c" using Cons.prems(1) by auto
  from Cons.IH [OF le f2 rest [unfolded v1]]
  obtain ys c' where "map (new_element T) cs = map Inr ys" and "length ((xs @ [y]) @ ys) \<le> c'"
    and "v' = vector_of ((xs @ [y]) @ ys) c'"
    by blast
  then show ?case using a by (intro exI [of _ "y # ys"] exI [of _ c']) simp
qed

text \<open>
  Claim C5. Let \<open>cs\<close> be a sequence of appends, each by \<^verbatim>\<open>PushBack(const T&)\<close>, by
  \<^verbatim>\<open>PushBack(T&&)\<close> or by \<^verbatim>\<open>EmplaceBack\<close>, to a vector \<open>v\<close> (the byte counts of the blocks
  they allocate fit \<^verbatim>\<open>size_t\<close>). Whenever the appends return, the constructor calls have
  built the values \<open>xs\<close>, and the vector holds the old elements followed by \<open>xs\<close>, in that
  order; its size has grown by the number of appends. The appends do return when every
  constructor call builds its value and no element throws on relocation. Whenever one
  \<^verbatim>\<open>EmplaceBack\<close> returns, it has put the new object into slot \<open>Size\<close>, in a block of twice
  the size (of one slot for the empty vector) when \<open>Size\<close> equalled \<open>Capacity\<close> and in the
  old block otherwise, has raised \<open>Size\<close> by one, and returns the reference to that slot,
  the last element. It does return when there is a free slot, or when no element throws on
  relocation.
\<close>

theorem append_spec:
  assumes "Vector_inv v" and "block_fits T (2 * (size_m v + length cs + 1))"
  shows "(\<forall>v' u. append_all T v cs = Return v' u \<longrightarrow>
            (\<exists>xs. map (new_element T) cs = map Inr xs \<and> elements v' = elements v @ xs \<and>
                  size_m v' = size_m v + length cs \<and> Vector_inv v')) \<and>
         (\<forall>xs. map (new_element T) cs = map Inr xs \<and>
               relocates_ok (EmplaceBack_moves T) T (elements v @ xs) \<longrightarrow>
            (\<exists>v'. append_all T v cs = Return v' ())) \<and>
         (\<forall>a v1 i. EmplaceBack T v a = Return v1 i \<longrightarrow>
            (\<exists>x. a = Inr x \<and> i = size_m v \<and> object_at (block_of v1) i = Some x \<and>
                 size_m v1 = size_m v + 1 \<and> i = size_m v1 - 1 \<and>
                 elements v1 = elements v @ [x] \<and>
                 Capacity v1 = (if size_m v = Capacity v
                                then (if size_m v = 0 then 1 else size_m v * 2)
                                else Capacity v) \<and>
                 Vector_inv v1)) \<and>
         (\<forall>x. size_m v < Capacity v \<or> relocates_ok (EmplaceBack_moves T) T (elements v) \<longrightarrow>
            (\<exists>v1. EmplaceBack T v (Inr x) = Return v1 (size_m v)))"
proof -
  let ?es = "elements v" and ?c = "Capacity v"
  have v: "v = vector_of ?es ?c" using assms(1) by (rule Vector_inv_normal)
  have le: "length ?es \<le> ?c" and len: "length ?es = size_m v"
    using assms(1) by (simp_all add: Vector_inv_block)
  have f: "block_fits T (2 * (length ?es + length cs))"
    using assms(2) unfolding len by (rule block_fits_mono) simp
  have f1: "block_fits T (2 * (length ?es + 1))"
    using assms(2) unfolding len by (rule block_fits_mono) simp
  have 1: "\<exists>xs. map (new_element T) cs = map Inr xs \<and> elements v' = elements v @ xs \<and>
                  size_m v' = size_m v + length cs \<and> Vector_inv v'"
    if r: "append_all T v cs = Return v' u" for v' u
  proof -
    from r have "append_all T (vector_of ?es ?c) cs = Return v' u" using v by simp
    from append_all_Return_D [OF le f this]
    obtain ys c' where m: "map (new_element T) cs = map Inr ys"
      and le': "length (?es @ ys) \<le> c'" and v': "v' = vector_of (?es @ ys) c'"
      by blast
    from m have "length (map (new_element T) cs) = length (map Inr ys :: (exn + 'a) list)"
      by simp
    then have l: "length ys = length cs" by simp
    show ?thesis
      using m l len v' vector_of_inv [OF le'] by (intro exI [of _ ys]) simp
  qed
  have 2: "\<exists>v'. append_all T v cs = Return v' ()"
    if "map (new_element T) cs = map Inr xs"
      and "relocates_ok (EmplaceBack_moves T) T (elements v @ xs)" for xs
    using append_all_Return [OF le that f] v by metis
  have 3: "\<exists>x. a = Inr x \<and> i = size_m v \<and> object_at (block_of v1) i = Some x \<and>
                 size_m v1 = size_m v + 1 \<and> i = size_m v1 - 1 \<and>
                 elements v1 = elements v @ [x] \<and>
                 Capacity v1 = (if size_m v = Capacity v
                                then (if size_m v = 0 then 1 else size_m v * 2)
                                else Capacity v) \<and>
                 Vector_inv v1"
    if r: "EmplaceBack T v a = Return v1 i" for a v1 i
  proof -
    let ?c1 = "if length ?es = ?c then (if length ?es = 0 then 1 else length ?es * 2) else ?c"
    from r have "EmplaceBack T (vector_of ?es ?c) a = Return v1 i" using v by simp
    from EmplaceBack_Return_D [OF le f1 this]
    obtain x where a: "a = Inr x" and i: "i = length ?es"
      and v1: "v1 = vector_of (?es @ [x]) ?c1"
      by blast
    have le1: "length (?es @ [x]) \<le> ?c1" using le by auto
    have o: "object_at (block_of (vector_of (?es @ [x]) ?c1)) (length ?es) = Some x"
      using object_at_mid [of "map Some ?es" "Some x" "replicate (?c1 - length (?es @ [x])) None"]
      by simp
    show ?thesis
      using a i v1 o len vector_of_inv [OF le1] by (intro exI [of _ x]) simp
  qed
  have 4: "\<exists>v1. EmplaceBack T v (Inr x) = Return v1 (size_m v)"
    if "size_m v < Capacity v \<or> relocates_ok (EmplaceBack_moves T) T (elements v)" for x
  proof -
    have "length ?es < ?c \<or> relocates_ok (EmplaceBack_moves T) T ?es"
      using that len by simp
    from EmplaceBack_Return [OF le this f1, of x] show ?thesis using v len by metis
  qed
  show ?thesis using 1 2 3 4 by blast
qed

theorem append_spec_witness:
  "Vector_inv (vector_of [1, 2 :: nat] 2) \<and>
   block_fits plain_type
     (2 * (size_m (vector_of [1, 2 :: nat] 2)
           + length [By_PushBack 3, By_PushBack_rvalue 4, By_EmplaceBack (Inr (5 :: nat))] + 1)) \<and>
   map (new_element plain_type) [By_PushBack 3, By_PushBack_rvalue 4, By_EmplaceBack (Inr 5)]
     = map Inr [3, 4, 5] \<and>
   relocates_ok (EmplaceBack_moves plain_type) plain_type
     (elements (vector_of [1, 2] 2) @ [3, 4, 5]) \<and>
   (\<exists>v'. append_all plain_type (vector_of [1, 2] 2)
            [By_PushBack 3, By_PushBack_rvalue 4, By_EmplaceBack (Inr 5)] = Return v' () \<and>
         elements v' = [1, 2, 3, 4, 5] \<and> size_m v' = 5 \<and> Vector_inv v') \<and>
   Vector_inv (vector_of [13 :: nat] 8) \<and>
   block_fits throwing_type
     (2 * (size_m (vector_of [13 :: nat] 8) + length [By_PushBack_rvalue (7 :: nat)] + 1)) \<and>
   size_m (vector_of [13 :: nat] 8) < Capacity (vector_of [13 :: nat] 8) \<and>
   (\<exists>v1. EmplaceBack throwing_type (vector_of [13] 8) (Inr 5) = Return v1 1 \<and>
         object_at (block_of v1) 1 = Some 5 \<and> size_m v1 = 2 \<and> elements v1 = [13, 5] \<and>
         Capacity v1 = 8 \<and> Vector_inv v1) \<and>
   (\<exists>v'. append_all throwing_type (vector_of [13] 8) [By_PushBack_rvalue 7] = Return v' () \<and>
         elements v' = [13, 7] \<and> size_m v' = 2 \<and> Vector_inv v')"
proof -
  let ?V = "vector_of [1, 2 :: nat] 2"
  let ?cs = "[By_PushBack 3, By_PushBack_rvalue 4, By_EmplaceBack (Inr (5 :: nat))]"
  let ?W = "vector_of [13 :: nat] 8"
  let ?ds = "[By_PushBack_rvalue (7 :: nat)]"
  have inv: "Vector_inv ?V" and el: "elements ?V = [1, 2]"
    and invW: "Vector_inv ?W" and elW: "elements ?W = [13]"
    by (simp_all add: vector_of_inv)
  have fits: "block_fits plain_type (2 * (size_m ?V + length ?cs + 1))"
    and fitsW: "block_fits throwing_type (2 * (size_m ?W + length ?ds + 1))"
    by (simp_all add: block_fits_def plain_type_def throwing_type_def)
  have new: "map (new_element plain_type) ?cs = map Inr [3, 4, 5]"
    by (simp add: copy_construct_def move_construct_def plain_type_def)
  have newW: "map (new_element throwing_type) ?ds = map Inr [7]"
    by (simp add: move_construct_def throwing_type_def)
  have ok: "relocates_ok (EmplaceBack_moves plain_type) plain_type (elements ?V @ [3, 4, 5])"
    by (simp add: relocates_ok_def plain_type_def)
  have free: "size_m ?W < Capacity ?W" by simp
  note s = append_spec [OF inv fits]
  note t = append_spec [OF invW fitsW]
  from s new ok obtain v' where a: "append_all plain_type ?V ?cs = Return v' ()" by blast
  from s a obtain xs where b: "map (new_element plain_type) ?cs = map Inr xs"
    and c: "elements v' = elements ?V @ xs" "size_m v' = size_m ?V + length ?cs" "Vector_inv v'"
    by blast
  have "(map Inr xs :: (exn + nat) list) = map Inr [3, 4, 5]"
    using b [symmetric] new by (rule trans)
  then have xs: "xs = [3, 4, 5]" by (simp only: inj_map_eq_map [OF inj_Inr])
  from t free obtain v1 where d: "EmplaceBack throwing_type ?W (Inr 5) = Return v1 (size_m ?W)"
    by blast
  from t d obtain x where e: "Inr 5 = (Inr x :: exn + nat)"
    and g: "object_at (block_of v1) (size_m ?W) = Some x" "size_m v1 = size_m ?W + 1"
      "elements v1 = elements ?W @ [x]"
      "Capacity v1 = (if size_m ?W = Capacity ?W
                      then (if size_m ?W = 0 then 1 else size_m ?W * 2) else Capacity ?W)"
      "Vector_inv v1"
    by blast
  from e have x: "x = 5" by simp
  have "EmplaceBack throwing_type ?W (Inr 7) = Return (vector_of [13, 7] 8) 1"
    using EmplaceBack_in_place [of "[13]" 8 throwing_type 7] by simp
  then have h: "append_all throwing_type ?W ?ds = Return (vector_of [13, 7] 8) ()"
    by (simp add: PushBack_rvalue_def move_construct_def throwing_type_def discard_result_def)
  from t h obtain ys where k: "map (new_element throwing_type) ?ds = map Inr ys"
    and l: "elements (vector_of [13, 7 :: nat] 8) = elements ?W @ ys"
      "size_m (vector_of [13, 7 :: nat] 8) = size_m ?W + length ?ds"
      "Vector_inv (vector_of [13, 7 :: nat] 8)"
    by blast
  have "(map Inr ys :: (exn + nat) list) = map Inr [7]"
    using k [symmetric] newW by (rule trans)
  then have ys: "ys = [7]" by (simp only: inj_map_eq_map [OF inj_Inr])
  have A: "\<exists>v'. append_all plain_type ?V ?cs = Return v' () \<and>
         elements v' = [1, 2, 3, 4, 5] \<and> size_m v' = 5 \<and> Vector_inv v'"
    using a c xs el by (intro exI [of _ v']) simp
  have B: "\<exists>v1. EmplaceBack throwing_type ?W (Inr 5) = Return v1 1 \<and>
         object_at (block_of v1) 1 = Some 5 \<and> size_m v1 = 2 \<and> elements v1 = [13, 5] \<and>
         Capacity v1 = 8 \<and> Vector_inv v1"
    using d g x elW by (intro exI [of _ v1]) simp
  have C: "\<exists>v'. append_all throwing_type ?W ?ds = Return v' () \<and>
         elements v' = [13, 7] \<and> size_m v' = 2 \<and> Vector_inv v'"
    using h l ys elW by (intro exI [of _ "vector_of [13, 7] 8"]) simp
  show ?thesis using inv fits new ok A invW fitsW free B C by blast
qed

section \<open>Relocation by move or by copy\<close>

text \<open>
  Claim C2 says that one rule, move exactly when the move cannot throw or there is no copy
  constructor, governs \<^verbatim>\<open>Reserve\<close>, \<^verbatim>\<open>EmplaceBack\<close> and \<^verbatim>\<open>Emplace\<close>. \<^verbatim>\<open>Reserve\<close> tests
  \<^verbatim>\<open>!is_copy_constructible_v\<close>, the other two test \<^verbatim>\<open>!is_nothrow_copy_constructible_v\<close>.
  For a copyable type whose copy and move may both throw, \<^verbatim>\<open>Reserve\<close> copies and a failure
  leaves the elements as they were, while \<^verbatim>\<open>EmplaceBack\<close> moves and a failure at the second
  element leaves the first one moved-from.
\<close>

theorem selection_rule_example:
  "Reserve_moves throwing_type = False \<and> EmplaceBack_moves throwing_type = True \<and>
   Emplace_moves throwing_type = True \<and>
   Reserve throwing_type (vector_of [1, 13] 2) 4 = Throw (vector_of [1, 13] 2) StdException \<and>
   EmplaceBack throwing_type (vector_of [1, 13] 2) (Inr 5)
     = Throw (vector_of [0, 13] 2) StdException"
proof -
  have m: "Reserve_moves throwing_type = False" "EmplaceBack_moves throwing_type = True"
      "Emplace_moves throwing_type = True"
    by (simp_all add: Reserve_moves_def EmplaceBack_moves_def Emplace_moves_def throwing_type_def)
  have f: "block_fits throwing_type 4" by (simp add: block_fits_def throwing_type_def)
  have ok: "relocates_ok b throwing_type [1]" for b
    by (simp add: relocates_ok_def throwing_type_def)
  have bad: "move_throws throwing_type 13 = Some StdException"
      "copy_throws throwing_type 13 = Some StdException"
    and mf: "moved_from throwing_type 1 = 0"
    by (simp_all add: throwing_type_def)
  have badR: "(if Reserve_moves throwing_type then move_throws throwing_type 13
               else copy_throws throwing_type 13) = Some StdException"
    and badE: "(if EmplaceBack_moves throwing_type then move_throws throwing_type 13
                else copy_throws throwing_type 13) = Some StdException"
    using m bad by simp_all
  have f': "block_fits throwing_type (length ([1] @ 13 # [] :: nat list) * 2)"
    by (simp add: block_fits_def throwing_type_def)
  have "Reserve throwing_type (vector_of ([1] @ 13 # []) 2) 4
          = Throw (vector_of ((if Reserve_moves throwing_type
                               then map (moved_from throwing_type) [1] else [1]) @ 13 # []) 2)
                  StdException"
    by (rule Reserve_grow_Throw [OF _ _ ok badR f]) simp_all
  then have r: "Reserve throwing_type (vector_of [1, 13] 2) 4
             = Throw (vector_of [1, 13] 2) StdException"
    using m by simp
  have "EmplaceBack throwing_type (vector_of ([1] @ 13 # []) (length ([1] @ 13 # [] :: nat list)))
            (Inr 5)
          = Throw (vector_of ((if EmplaceBack_moves throwing_type
                               then map (moved_from throwing_type) [1] else [1]) @ 13 # [])
                     (length ([1] @ 13 # [] :: nat list))) StdException"
    by (rule EmplaceBack_grow_Throw [OF refl ok badE f'])
  then have e: "EmplaceBack throwing_type (vector_of [1, 13] 2) (Inr 5)
             = Throw (vector_of [0, 13] 2) StdException"
    using m mf by (simp add: numeral_2_eq_2)
  show ?thesis using m r e by simp
qed

section \<open>Emplace and Erase\<close>

lemma to_int_small: "pos < 2 ^ 31 \<Longrightarrow> to_int pos = int pos"
  by (simp add: to_int_def Let_def)

lemma size_minus_small: "pos \<le> n \<Longrightarrow> n < 2 ^ 64 \<Longrightarrow> size_minus n (int pos) = n - pos"
proof -
  assume a: "pos \<le> n" "n < 2 ^ 64"
  have b: "int n - int pos = int (n - pos)" using a by simp
  have c: "n - pos < 2 ^ 64" using a(2) by (rule less_imp_diff_less)
  have "int (n - pos) < int (2 ^ 64)" using c by (simp only: of_nat_less_iff)
  then have "int (n - pos) < 2 ^ 64" by simp
  then have "int (n - pos) mod 2 ^ 64 = int (n - pos)" by simp
  then show ?thesis unfolding size_minus_def b by simp
qed

lemma Emplace_in_place_Undefined:
  assumes "Vector_inv v" and "size_m v \<noteq> 0" and "size_m v < Capacity v"
  shows "Emplace T v pos (Inr x) = Undefined"
proof -
  have "block_of v = map Some (elements v) @ replicate (Capacity v - size_m v) None"
    and len: "length (map Some (elements v)) = size_m v"
    using assms(1) by (simp_all add: Vector_inv_block)
  moreover have "replicate (Capacity v - size_m v) (None :: 'a option)
      = None # replicate (Capacity v - size_m v - 1) None"
    using assms(3) by (cases "Capacity v - size_m v") simp_all
  ultimately have "block_of v = map Some (elements v) @ None # replicate (Capacity v - size_m v - 1) None"
    by simp
  then have "object_at (block_of v) (size_m v) = None"
    using object_at_mid [of "map Some (elements v)" None "replicate (Capacity v - size_m v - 1) None"]
      len by simp
  then show ?thesis using assms(2,3) by (simp add: Emplace_def Let_def)
qed

text \<open>
  Claim C3 says that an insertion into a vector with spare capacity moves the last element
  into the free slot, shifts the tail and writes the value. The code constructs the object
  in the free slot \<^verbatim>\<open>end()\<close> from \<^verbatim>\<open>data_[size_]\<close>, which is that free slot itself and
  holds no object, where the last element is \<^verbatim>\<open>data_[size_ - 1]\<close>. Appending 1, 2, 3 to
  the empty vector gives \<open>[1, 2, 3]\<close> with capacity 4; inserting 9 into it, at position
  1 or at the end, is undefined, while \<^verbatim>\<open>EmplaceBack\<close> appends it.
\<close>

theorem Emplace_in_place_example:
  "PushBack_all plain_type Vector_default [1, 2, 3] = Return (vector_of [1, 2, 3] 4) () \<and>
   Emplace plain_type (vector_of [1, 2, 3] 4) 1 (Inr 9) = Undefined \<and>
   Emplace plain_type (vector_of [1, 2, 3] 4) 3 (Inr 9) = Undefined \<and>
   EmplaceBack plain_type (vector_of [1, 2, 3] 4) (Inr 9) = Return (vector_of [1, 2, 3, 9] 4) 3"
proof -
  have ok: "relocates_ok (EmplaceBack_moves plain_type) plain_type xs" for xs
    by (simp add: relocates_ok_def plain_type_def)
  have c: "copy_throws plain_type x = None" for x by (simp add: plain_type_def)
  have f: "block_fits plain_type (2 * (length xs + 1))" if "length xs \<le> 2" for xs :: "nat list"
    using that by (simp add: block_fits_def plain_type_def)
  have 1: "PushBack plain_type (vector_of [] 0) 1 = Return (vector_of [1] 1) ()"
    using PushBack_Return [OF _ ok c f, of "[]" 0 1] by simp
  have 2: "PushBack plain_type (vector_of [1] 1) 2 = Return (vector_of [1, 2] 2) ()"
    using PushBack_Return [OF _ ok c f, of "[1]" 1 2] by simp
  have 3: "PushBack plain_type (vector_of [1, 2] 2) 3 = Return (vector_of [1, 2, 3] 4) ()"
    using PushBack_Return [OF _ ok c f, of "[1, 2]" 2 3] by simp
  have "PushBack_all plain_type Vector_default [1, 2, 3] = Return (vector_of [1, 2, 3] 4) ()"
    unfolding Vector_default_vector_of using 1 2 3 by simp
  then show ?thesis
    using Emplace_in_place_Undefined [of "vector_of [1, 2, 3 :: nat] 4" plain_type]
      EmplaceBack_in_place [of "[1, 2, 3 :: nat]" 4 plain_type 9]
    by (simp add: vector_of_inv)
qed

text \<open>
  Were the free slot to hold some object \<open>g\<close>, the statements that follow would run as
  written: the shift overwrites the last element, which nothing has saved, and the new last
  element is \<open>g\<close>. Inserting 9 at position 1 into \<open>[1, 2, 3]\<close> then gives \<open>[1, 9, 2, g]\<close>.
\<close>

lemma Emplace_in_place_loses_last:
  "Emplace plain_type
     \<lparr>data_m = \<lparr>buffer_m = [Some 1, Some 2, Some 3, Some g], capacity_m = 4\<rparr>, size_m = 3\<rparr>
     1 (Inr 9)
   = Return \<lparr>data_m = \<lparr>buffer_m = [Some 1, Some 9, Some 2, Some g], capacity_m = 4\<rparr>,
              size_m = 4\<rparr> 1"
  by (simp add: Emplace_def to_int_def plain_type_def block_of_def Capacity_def with_block_def
      object_at_def construct_at_def move_backward_def move_assign_at_def Let_def
      numeral_3_eq_3)

lemma Erase_Return:
  assumes "length xs \<le> c" and "pos < length xs" and "pos < 2 ^ 31"
    and "\<forall>z\<in>set (drop (Suc pos) xs). move_assign_throws T z = None"
  shows "Erase T (vector_of xs c) pos = Return (vector_of (take pos xs @ drop (Suc pos) xs) c) pos"
proof -
  let ?p = "map Some (take pos xs)" and ?zs = "drop (Suc pos) xs"
  let ?q = "replicate (c - length xs) (None :: 'a option)"
  let ?y = "xs ! pos"
  let ?l = "if ?zs = [] then ?y else moved_from T (last ?zs)"
  have xs: "xs = take pos xs @ ?y # ?zs" using assms(2) by (simp add: id_take_nth_drop)
  have lp: "length ?p = pos" using assms(2) by simp
  have ne: "xs \<noteq> []" using assms(2) by auto
  have lz: "length ?zs = length xs - Suc pos" by simp
  have blk: "map Some xs @ ?q = ?p @ Some ?y # map Some ?zs @ ?q"
    by (subst xs) simp
  have mv: "move_loop T (?p @ Some ?y # map Some ?zs @ ?q) (Suc pos) (length xs - Suc pos) pos
              = Return (?p @ map Some ?zs @ Some ?l # ?q) ()"
    using move_loop_shift [OF assms(4), of ?p ?y ?q] unfolding lp lz .
  have "length (?p @ map Some ?zs) = length xs - 1" using assms(2) by simp
  then have ds: "Destroy (?p @ map Some ?zs @ Some ?l # ?q) (length xs - 1)
              = Some (?p @ map Some ?zs @ None # ?q)"
    using Destroy_mid [of "?p @ map Some ?zs" ?l ?q] by simp
  have fin: "\<lparr>data_m = \<lparr>buffer_m = ?p @ map Some ?zs @ None # ?q, capacity_m = c\<rparr>,
              size_m = length xs - 1\<rparr> = vector_of (take pos xs @ ?zs) c"
    using assms(1,2) by (simp add: vector_of_def Suc_diff_le min_absorb2 flip: replicate_Suc)
  have "Erase T (vector_of xs c) pos
          = Return \<lparr>data_m = \<lparr>buffer_m = ?p @ map Some ?zs @ None # ?q, capacity_m = c\<rparr>,
                    size_m = length xs - 1\<rparr> pos"
    using assms(2,3) mv ds ne
    by (simp add: Erase_def to_int_small std_move_def blk vector_of_def block_of_def with_block_def
        Let_def del: replicate.simps)
  then show ?thesis by (simp only: fin)
qed

lemma Emplace_relocate_Return:
  assumes "relocates_ok (Emplace_moves T) T (xs1 @ xs2)" and "length (xs1 @ xs2) < 2 ^ 64"
    and "length xs2 \<le> k"
  shows "Emplace_relocate T (map Some (xs1 @ xs2)) (length (xs1 @ xs2)) (length xs1)
           (replicate (length xs1) None @ Some x # replicate k None)
         = Return (map Some (if Emplace_moves T then map (moved_from T) (xs1 @ xs2) else xs1 @ xs2),
                   map Some xs1 @ Some x # map Some xs2 @ replicate (k - length xs2) None) ()"
proof -
  let ?dq2 = "replicate (k - length xs2) (None :: 'a option)"
  let ?tb = "replicate (length xs1) None @ Some x # replicate k None"
  have k: "replicate k (None :: 'a option) = replicate (length xs2) None @ ?dq2"
    using assms(3) by (simp add: replicate_add [symmetric])
  have cnt: "size_minus (length (xs1 @ xs2)) (int (length xs1)) = length xs2"
    using size_minus_small [of "length xs1" "length (xs1 @ xs2)"] assms(2) by simp
  show ?thesis
  proof (cases "Emplace_moves T")
    case True
    then have ok1: "\<forall>x\<in>set xs1. move_throws T x = None"
      and ok2: "\<forall>x\<in>set xs2. move_throws T x = None"
      using assms(1) by (auto simp: relocates_ok_def)
    let ?src1 = "map Some (map (moved_from T) xs1) @ map Some xs2"
    let ?dst1 = "map Some xs1 @ Some x # replicate k None"
    have m1: "uninitialized_move_n T (map Some (xs1 @ xs2)) 0 (length xs1) ?tb 0
              = Return (?src1, ?dst1) ()"
      using move_n_Return [OF ok1, of "replicate (length xs1) None" "map Some xs2"
          "Some x # replicate k None"]
      by simp
    have "uninitialized_move_loop T (map Some (map (moved_from T) xs1) @ map Some xs2 @ [])
            (length (map Some (map (moved_from T) xs1))) (length xs2)
            ((map Some xs1 @ [Some x]) @ replicate (length xs2) None @ ?dq2) (length xs1 + 1)
            (length (map Some xs1 @ [Some x]))
          = Return (map Some (map (moved_from T) xs1) @ map Some (map (moved_from T) xs2) @ [],
                    (map Some xs1 @ [Some x]) @ map Some xs2 @ ?dq2) ()"
      by (rule move_loop_Return [OF ok2]) simp
    then have m2: "uninitialized_move_n T ?src1 (length xs1) (length xs2) ?dst1 (length xs1 + 1)
          = Return (map Some (map (moved_from T) (xs1 @ xs2)),
                    map Some xs1 @ Some x # map Some xs2 @ ?dq2) ()"
      unfolding uninitialized_move_n_def k by simp
    show ?thesis
      using True m1 m2 cnt
      by (simp add: Emplace_relocate_def catch_std_exception_def del: replicate.simps)
  next
    case False
    then have ok1: "\<forall>x\<in>set xs1. copy_throws T x = None"
      and ok2: "\<forall>x\<in>set xs2. copy_throws T x = None"
      using assms(1) by (auto simp: relocates_ok_def)
    let ?src1 = "map Some xs1 @ map Some xs2"
    let ?dst1 = "map Some xs1 @ Some x # replicate k None"
    have m1: "uninitialized_copy_n T (map Some (xs1 @ xs2)) 0 (length xs1) ?tb 0
              = Return (map Some (xs1 @ xs2), ?dst1) ()"
      using copy_n_Return [OF ok1, of "replicate (length xs1) None" "map Some xs2"
          "Some x # replicate k None"]
      by simp
    have "uninitialized_copy_loop T (map Some xs1 @ map Some xs2 @ [])
            (length (map Some xs1)) (length xs2)
            ((map Some xs1 @ [Some x]) @ replicate (length xs2) None @ ?dq2) (length xs1 + 1)
            (length (map Some xs1 @ [Some x]))
          = Return (map Some xs1 @ map Some xs2 @ [],
                    (map Some xs1 @ [Some x]) @ map Some xs2 @ ?dq2) ()"
      by (rule copy_loop_Return [OF ok2]) simp
    then have m2: "uninitialized_copy_n T (map Some (xs1 @ xs2)) (length xs1) (length xs2) ?dst1
            (length xs1 + 1)
          = Return (map Some (xs1 @ xs2), map Some xs1 @ Some x # map Some xs2 @ ?dq2) ()"
      unfolding uninitialized_copy_n_def k by simp
    show ?thesis
      using False m1 m2 cnt
      by (simp add: Emplace_relocate_def catch_std_exception_def del: replicate.simps)
  qed
qed

lemma Emplace_grow_empty:
  assumes "block_fits T 1"
  shows "Emplace T (vector_of [] 0) 0 (Inr x) = Return (vector_of [x] 1) 0"
  using Allocate_replicate [OF assms]
  by (simp add: Emplace_def Emplace_relocate_def vector_of_def RawMemory_new_def
      block_of_def Capacity_def construct_at_def uninitialized_move_n_def
      uninitialized_copy_n_def RawMemory_move_assign_eq to_int_def size_minus_def
      catch_std_exception_def)

lemma Emplace_grow_steps:
  assumes "xs \<noteq> []" and "p < 2 ^ 31"
    and "construct_at (Allocate T (length xs * 2)) p x = Some tb"
    and "Emplace_relocate T (map Some xs) (length xs) p tb = Return (src, dst) ()"
    and "DestroyN src 0 (length xs) = Some src'"
    and "size_t_mul (length xs) 2 = length xs * 2"
  shows "Emplace T (vector_of xs (length xs)) p (Inr x)
           = Return \<lparr>data_m = \<lparr>buffer_m = dst, capacity_m = length xs * 2\<rparr>,
                     size_m = Suc (length xs)\<rparr> p"
  using assms
  by (simp add: Emplace_def to_int_small Let_def RawMemory_move_assign_eq RawMemory_new_def
      vector_of_def Capacity_def block_of_def)

lemma Emplace_grow_nonempty:
  assumes "relocates_ok (Emplace_moves T) T (xs1 @ xs2)" and "length (xs1 @ xs2) < 2 ^ 31"
    and "xs1 @ xs2 \<noteq> []" and fits: "block_fits T (length (xs1 @ xs2) * 2)"
  shows "Emplace T (vector_of (xs1 @ xs2) (length (xs1 @ xs2))) (length xs1) (Inr x)
           = Return (vector_of (xs1 @ x # xs2) (length (xs1 @ xs2) * 2)) (length xs1)"
proof -
  let ?xs = "xs1 @ xs2"
  let ?n = "length ?xs"
  let ?k = "?n * 2 - length xs1 - 1"
  have pos: "0 < ?n" using assms(3) by simp
  have small: "length xs1 < 2 ^ 31" using assms(2) by simp
  have "(2 :: nat) ^ 31 < 2 ^ 64" by simp
  then have n64: "?n < 2 ^ 64" using assms(2) by (rule less_trans [rotated])
  have k: "length xs2 \<le> ?k" and k': "?k - length xs2 = ?n - 1" using pos by simp_all
  have "length xs1 \<le> ?n * 2" by simp
  from Allocate_split [OF this fits]
  have "Allocate T (?n * 2) = replicate (length xs1) None @ replicate (Suc ?k) None"
    using pos by simp
  then have al: "Allocate T (?n * 2) = replicate (length xs1) None @ None # replicate ?k None"
    by simp
  have tb: "construct_at (Allocate T (?n * 2)) (length xs1) x
              = Some (replicate (length xs1) None @ Some x # replicate ?k None)"
    unfolding al using construct_at_mid [of "replicate (length xs1) None" None "replicate ?k None" x]
    by simp
  let ?ys = "if Emplace_moves T then map (moved_from T) ?xs else ?xs"
  let ?dst = "map Some xs1 @ Some x # map Some xs2 @ replicate (?n - 1) None"
  have rel: "Emplace_relocate T (map Some ?xs) ?n (length xs1)
               (replicate (length xs1) None @ Some x # replicate ?k None)
             = Return (map Some ?ys, ?dst) ()"
    using Emplace_relocate_Return [OF assms(1) n64 k, of x] unfolding k' .
  have "length ?ys = ?n" by simp
  then have d: "DestroyN (map Some ?ys) 0 ?n = Some (replicate ?n None)"
    using DestroyN_live [of "[]" ?ys "[]"] by simp
  have fin: "\<lparr>data_m = \<lparr>buffer_m = ?dst, capacity_m = ?n * 2\<rparr>, size_m = Suc ?n\<rparr>
               = vector_of (xs1 @ x # xs2) (?n * 2)"
    using pos by (simp add: vector_of_def)
  show ?thesis
    using Emplace_grow_steps [OF assms(3) small tb rel d size_t_mul_2 [OF fits]]
    by (simp only: fin)
qed

lemma Emplace_grow:
  assumes "relocates_ok (Emplace_moves T) T (xs1 @ xs2)" and "length (xs1 @ xs2) < 2 ^ 31"
    and fits: "block_fits T (2 * (length (xs1 @ xs2) + 1))"
  shows "Emplace T (vector_of (xs1 @ xs2) (length (xs1 @ xs2))) (length xs1) (Inr x)
           = Return (vector_of (xs1 @ x # xs2)
                       (if length (xs1 @ xs2) = 0 then 1 else length (xs1 @ xs2) * 2))
                    (length xs1)"
proof (cases "xs1 @ xs2 = []")
  case True
  have "block_fits T 1" using fits by (rule block_fits_mono) simp
  then show ?thesis using True Emplace_grow_empty [of T x] by simp
next
  case False
  then have ne: "length (xs1 @ xs2) \<noteq> 0" by simp
  have "block_fits T (length (xs1 @ xs2) * 2)" using fits by (rule block_fits_mono) simp
  from Emplace_grow_nonempty [OF assms(1,2) False this, of x]
  show ?thesis by (simp only: ne if_False)
qed

text \<open>Insertion into the empty vector with spare capacity constructs in place.\<close>

lemma Emplace_empty_in_place:
  assumes "0 < c"
  shows "Emplace T (vector_of [] c) 0 (Inr x) = Return (vector_of [x] c) 0"
proof -
  have "replicate c (None :: 'a option) = None # replicate (c - 1) None"
    using assms by (cases c) simp_all
  then show ?thesis
    using assms
    by (simp add: Emplace_def to_int_def vector_of_def Capacity_def block_of_def with_block_def
        construct_at_def)
qed

text \<open>
  With reallocation, insertion followed by erasure at the same position gives back the
  elements (in a block of twice the size).
\<close>

lemma Insert_Erase_with_reallocation:
  assumes "relocates_ok (Emplace_moves T) T (xs1 @ xs2)" and "length (xs1 @ xs2) < 2 ^ 31"
    and "copy_throws T x = None" and "\<forall>z\<in>set xs2. move_assign_throws T z = None"
    and "block_fits T (2 * (length (xs1 @ xs2) + 1))"
  shows "\<exists>v1 c. Insert T (vector_of (xs1 @ xs2) (length (xs1 @ xs2))) (length xs1) x
                  = Return v1 (length xs1) \<and>
                elements v1 = xs1 @ x # xs2 \<and>
                Erase T v1 (length xs1) = Return (vector_of (xs1 @ xs2) c) (length xs1)"
proof -
  let ?c = "if length (xs1 @ xs2) = 0 then 1 else length (xs1 @ xs2) * 2"
  let ?v1 = "vector_of (xs1 @ x # xs2) ?c"
  have le: "length (xs1 @ x # xs2) \<le> ?c"
  proof (cases "length (xs1 @ xs2) = 0")
    case True
    then show ?thesis by simp
  next
    case False
    then have "Suc (length (xs1 @ xs2)) \<le> length (xs1 @ xs2) * 2" by linarith
    then show ?thesis using False by simp
  qed
  have ins: "Insert T (vector_of (xs1 @ xs2) (length (xs1 @ xs2))) (length xs1) x
               = Return ?v1 (length xs1)"
    using Emplace_grow [OF assms(1,2,5), of x] assms(3)
    by (simp add: Insert_def copy_construct_def)
  have small: "length xs1 < 2 ^ 31" using assms(2) by simp
  have "Erase T ?v1 (length xs1)
          = Return (vector_of (take (length xs1) (xs1 @ x # xs2)
                                 @ drop (Suc (length xs1)) (xs1 @ x # xs2)) ?c) (length xs1)"
    by (rule Erase_Return [OF le _ small]) (use assms(4) in simp_all)
  then have "Erase T ?v1 (length xs1) = Return (vector_of (xs1 @ xs2) ?c) (length xs1)"
    by simp
  then show ?thesis using ins vector_of_inv(2) [OF le] by blast
qed

text \<open>
  Claim C6 says that insertion followed by erasure at the same position gives back the
  sequence. For \<open>[5, 6]\<close> with capacity 4 the insertion at position 0 takes the branch
  without reallocation, reads the slot \<^verbatim>\<open>data_[size_]\<close> that holds no object, and is
  undefined: it leaves no vector to erase from.
\<close>

theorem Insert_Erase_example:
  "Insert plain_type (vector_of [5, 6] 4) 0 9 = Undefined"
  using Emplace_in_place_Undefined [of "vector_of [5, 6 :: nat] 4" plain_type 0 9]
  by (simp add: vector_of_inv Insert_def copy_construct_def plain_type_def)

section \<open>Construction with a size, Resize and copy assignment\<close>

lemma Vector_sized_Return:
  assumes "default_ctor T = Inr d" and fits: "block_fits T n"
  shows "Vector_sized T n = Return () (vector_of (replicate n d) n)"
proof -
  have "uninitialized_value_construct_loop T ([] @ replicate n None @ []) 0 n (length [])
          = Return ([] @ replicate n (Some d) @ []) ()"
    using value_construct_loop_Return [OF assms(1), of "replicate n None" n "[]" "[]" 0] by simp
  then show ?thesis
    by (simp add: Vector_sized_def uninitialized_value_construct_n_def RawMemory_new_def
        Allocate_replicate [OF fits] vector_of_def)
qed

lemma Resize_shrink:
  assumes "length xs \<le> c" and "n \<le> length xs"
  shows "Resize T (vector_of xs c) n = Return (vector_of (take n xs) c) ()"
proof -
  let ?q = "replicate (c - length xs) (None :: 'a option)"
  have ln: "length (map Some (take n xs)) = n" and ld: "length (drop n xs) = length xs - n"
    using assms(2) by simp_all
  have blk: "map Some xs @ ?q = map Some (take n xs) @ map Some (drop n xs) @ ?q"
    by (simp flip: map_append)
  have "DestroyN (map Some (take n xs) @ map Some (drop n xs) @ ?q)
          (length (map Some (take n xs))) (length (drop n xs))
        = Some (map Some (take n xs) @ replicate (length (drop n xs)) None @ ?q)"
    by (rule DestroyN_live)
  then have d: "DestroyN (map Some xs @ ?q) n (length xs - n)
                  = Some (map Some (take n xs) @ replicate (length xs - n) None @ ?q)"
    unfolding ln ld blk [symmetric] .
  have fin: "\<lparr>data_m = \<lparr>buffer_m = map Some (take n xs) @ replicate (length xs - n) None @ ?q,
                         capacity_m = c\<rparr>, size_m = n\<rparr>
               = vector_of (take n xs) c"
    using assms by (simp add: vector_of_def min_absorb2 replicate_add [symmetric])
  have "Resize T (vector_of xs c) n
          = Return \<lparr>data_m = \<lparr>buffer_m = map Some (take n xs) @ replicate (length xs - n) None @ ?q,
                                capacity_m = c\<rparr>, size_m = n\<rparr> ()"
    using assms(2) d by (simp add: Resize_def vector_of_def block_of_def with_block_def)
  then show ?thesis by (simp only: fin)
qed

lemma Resize_grow:
  assumes "length xs \<le> c" and "length xs < n" and "default_ctor T = Inr d"
    and "relocates_ok (Reserve_moves T) T xs" and fits: "block_fits T n"
  shows "Resize T (vector_of xs c) n
           = Return (vector_of (xs @ replicate (n - length xs) d) (max c n)) ()"
proof -
  let ?m = "max c n"
  have r: "Reserve T (vector_of xs c) n = Return (vector_of xs ?m) ()"
  proof (cases "n \<le> c")
    case True
    then show ?thesis by (simp add: Reserve_noop max_absorb1)
  next
    case False
    then show ?thesis
      using Reserve_grow_Return [OF assms(1) _ assms(4) fits] by (simp add: max_absorb2)
  qed
  let ?q = "replicate (?m - n) (None :: 'a option)"
  have blk: "map Some xs @ replicate (?m - length xs) None
               = map Some xs @ replicate (n - length xs) None @ ?q"
    using assms(2) by (simp add: replicate_add [symmetric])
  have "uninitialized_value_construct_loop T (map Some xs @ replicate (n - length xs) None @ ?q)
          (length xs) (n - length xs) (length (map Some xs))
        = Return (map Some xs @ replicate (n - length xs) (Some d) @ ?q) ()"
    by (rule value_construct_loop_Return [OF assms(3)]) simp
  then have vc: "uninitialized_value_construct_n T (map Some xs @ replicate (?m - length xs) None)
          (length xs) (n - length xs)
        = Return (map Some xs @ replicate (n - length xs) (Some d) @ ?q) ()"
    unfolding blk by (simp add: uninitialized_value_construct_n_def)
  have fin: "\<lparr>data_m = \<lparr>buffer_m = map Some xs @ replicate (n - length xs) (Some d) @ ?q,
                         capacity_m = ?m\<rparr>, size_m = n\<rparr>
               = vector_of (xs @ replicate (n - length xs) d) ?m"
    using assms(2) by (simp add: vector_of_def)
  have "Resize T (vector_of xs c) n
          = Return \<lparr>data_m = \<lparr>buffer_m = map Some xs @ replicate (n - length xs) (Some d) @ ?q,
                                capacity_m = ?m\<rparr>, size_m = n\<rparr> ()"
    using assms(2) r vc
    by (simp add: Resize_def with_block_def, simp add: vector_of_def)
  then show ?thesis by (simp only: fin)
qed

lemma Vector_dtor_ok:
  "length xs \<le> c \<Longrightarrow> Vector_dtor (vector_of xs c) \<noteq> None"
  using DestroyN_live [of "[]" xs "replicate (c - length xs) None"]
  by (simp add: Vector_dtor_def)

lemma Vector_copy_assign_Return:
  assumes "length xs \<le> c" and "length ys \<le> c'"
    and "\<forall>x\<in>set ys. copy_throws T x = None \<and> copy_assign_throws T x = None"
    and fits: "block_fits T (length ys)"
  shows "Vector_copy_assign T (vector_of xs c) (vector_of ys c')
           = Return (vector_of ys (if c < length ys then length ys else c)) ()"
proof -
  let ?q = "replicate (c - length xs) (None :: 'a option)"
  let ?q' = "replicate (c' - length ys) (None :: 'a option)"
  have okc: "relocates_ok False T ys" and oka: "\<forall>x\<in>set ys. copy_assign_throws T x = None"
    using assms(3) by (simp_all add: relocates_ok_def)
  consider (big) "c < length ys" | (shorter) "length ys \<le> c" "length ys < length xs"
    | (longer) "length ys \<le> c" "length xs \<le> length ys"
    by linarith
  then show ?thesis
  proof cases
    case big
    have "Vector_copy T (vector_of ys c') = Return () (vector_of ys (length ys))"
      by (rule Vector_copy_Return [OF assms(2) okc fits])
    then show ?thesis
      using big Vector_dtor_ok [OF assms(1)]
      by (auto simp: Vector_copy_assign_def Swap_eq)
  next
    case shorter
    let ?n = "length ys"
    have lt: "length (take ?n xs) = ?n" and ld: "length (drop ?n xs) = length xs - ?n"
      using shorter(2) by simp_all
    have blk: "map Some xs @ ?q = map Some (take ?n xs) @ map Some (drop ?n xs) @ ?q"
      by (simp flip: map_append)
    have cp: "copy_n T (map Some ys @ ?q') 0 ?n (map Some xs @ ?q) 0
                     = Return (map Some ys @ map Some (drop ?n xs) @ ?q) ()"
      unfolding blk
      using copy_n_assign_Return [OF oka, where sp = "[]" and dp = "[]" and ys = "take ?n xs"
          and sq = ?q' and dq = "map Some (drop ?n xs) @ ?q"] lt
      by simp
    have "DestroyN (map Some ys @ map Some (drop ?n xs) @ ?q) (length (map Some ys))
            (length (drop ?n xs))
          = Some (map Some ys @ replicate (length (drop ?n xs)) None @ ?q)"
      by (rule DestroyN_live)
    then have ds: "DestroyN (map Some ys @ map Some (drop ?n xs) @ ?q) ?n (length xs - ?n)
          = Some (map Some ys @ replicate (length xs - ?n) None @ ?q)"
      unfolding ld by simp
    have fin: "\<lparr>data_m = \<lparr>buffer_m = map Some ys @ replicate (length xs - ?n) None @ ?q,
                           capacity_m = c\<rparr>, size_m = ?n\<rparr>
                 = vector_of ys c"
      using assms(1) shorter by (simp add: vector_of_def replicate_add [symmetric])
    have "Vector_copy_assign T (vector_of xs c) (vector_of ys c')
            = Return \<lparr>data_m = \<lparr>buffer_m = map Some ys @ replicate (length xs - ?n) None @ ?q,
                           capacity_m = c\<rparr>, size_m = ?n\<rparr> ()"
      using shorter cp ds
      by (simp add: Vector_copy_assign_def vector_of_def block_of_def Capacity_def with_block_def)
    then show ?thesis using shorter(1) by (simp only: fin) simp
  next
    case longer
    let ?n = "length xs"
    let ?y1 = "take ?n ys" and ?y2 = "drop ?n ys"
    let ?r = "replicate (c - length ys) (None :: 'a option)"
    have l1: "length ?y1 = ?n" and l2: "length ?y2 = length ys - ?n"
      using longer(2) by simp_all
    have ok1: "\<forall>x\<in>set ?y1. copy_assign_throws T x = None"
      and ok2: "\<forall>x\<in>set ?y2. copy_throws T x = None"
      using assms(3) by (auto dest: in_set_takeD in_set_dropD)
    have src: "map Some ys @ ?q' = map Some ?y1 @ map Some ?y2 @ ?q'"
      by (simp flip: map_append)
    have q: "?q = replicate (length ys - ?n) None @ ?r"
      using longer by (simp add: replicate_add [symmetric])
    have cp: "copy_n T (map Some ys @ ?q') 0 ?n (map Some xs @ ?q) 0
                     = Return (map Some ?y1 @ ?q) ()"
      unfolding src
      using copy_n_assign_Return [OF ok1, where sp = "[]" and dp = "[]" and ys = xs
          and sq = "map Some ?y2 @ ?q'" and dq = ?q] l1
      by simp
    have "uninitialized_copy_loop T (map Some ?y1 @ map Some ?y2 @ ?q') (length (map Some ?y1))
            (length ?y2) (map Some ?y1 @ replicate (length ys - ?n) None @ ?r) ?n
            (length (map Some ?y1))
          = Return (map Some ?y1 @ map Some ?y2 @ ?q', map Some ?y1 @ map Some ?y2 @ ?r) ()"
      by (rule copy_loop_Return [OF ok2]) (simp add: l2)
    then have uc: "uninitialized_copy_n T (map Some ys @ ?q') ?n (length ys - ?n)
                     (map Some ?y1 @ ?q) ?n
                   = Return (map Some ys @ ?q', map Some ys @ ?r) ()"
      unfolding uninitialized_copy_n_def src [symmetric] q l2
      using l1 by (simp flip: map_append)
    have fin: "\<lparr>data_m = \<lparr>buffer_m = map Some ys @ ?r, capacity_m = c\<rparr>, size_m = length ys\<rparr>
                 = vector_of ys c"
      by (simp add: vector_of_def)
    have "Vector_copy_assign T (vector_of xs c) (vector_of ys c')
            = Return \<lparr>data_m = \<lparr>buffer_m = map Some ys @ ?r, capacity_m = c\<rparr>,
                      size_m = length ys\<rparr> ()"
      using longer cp uc
      by (simp add: Vector_copy_assign_def vector_of_def block_of_def Capacity_def with_block_def)
    then show ?thesis using longer(1) by (simp only: fin) simp
  qed
qed

section \<open>The invariant\<close>

text \<open>
  For an element type none of whose special members throws, every call that returns leaves
  a vector that satisfies the invariant, provided the positions handed to \<^verbatim>\<open>Emplace\<close>
  and \<^verbatim>\<open>Erase\<close> are valid, the size is below \<open>2^31\<close> and the byte counts of the blocks
  allocated fit \<^verbatim>\<open>size_t\<close>. Of the calls of \<^verbatim>\<open>Emplace\<close> only those that reallocate or
  insert into an empty vector return.
\<close>

lemma nothrow_calls_preserve_Vector_inv:
  fixes T :: "'a elem_type" and v :: "'a Vector"
  assumes inv: "Vector_inv v"
    and nc: "\<And>x. copy_throws T x = None" and nm: "\<And>x. move_throws T x = None"
    and nca: "\<And>x. copy_assign_throws T x = None" and nma: "\<And>x. move_assign_throws T x = None"
    and dc: "default_ctor T = Inr d"
    and fits: "block_fits T (2 * (size_m v + 1))"
  shows "EmplaceBack T v (Inr x) = Return v' r \<Longrightarrow> Vector_inv v'"
    and "PushBack T v x = Return v' u \<Longrightarrow> Vector_inv v'"
    and "PopBack v = Return v' u \<Longrightarrow> Vector_inv v'"
    and "block_fits T n \<Longrightarrow> Reserve T v n = Return v' u \<Longrightarrow> Vector_inv v'"
    and "block_fits T n \<Longrightarrow> Resize T v n = Return v' u \<Longrightarrow> Vector_inv v'"
    and "Vector_inv w \<Longrightarrow> block_fits T (size_m w) \<Longrightarrow> Vector_copy_assign T v w = Return v' u
           \<Longrightarrow> Vector_inv v'"
    and "Vector_inv w \<Longrightarrow> block_fits T (size_m w) \<Longrightarrow>
         Vector_move_assign T v w = Return (v', w') u \<Longrightarrow> Vector_inv v' \<and> Vector_inv w'"
    and "Vector_inv w \<Longrightarrow> Swap v w = (v', w') \<Longrightarrow> Vector_inv v' \<and> Vector_inv w'"
    and "Vector_copy T v = Return u' v' \<Longrightarrow> Vector_inv v'"
    and "Vector_move v = (v', w') \<Longrightarrow> Vector_inv v' \<and> Vector_inv w'"
    and "pos \<le> size_m v \<Longrightarrow> size_m v < 2 ^ 31 \<Longrightarrow> Emplace T v pos (Inr x) = Return v' r
           \<Longrightarrow> Vector_inv v'"
    and "pos < size_m v \<Longrightarrow> size_m v < 2 ^ 31 \<Longrightarrow> Erase T v pos = Return v' r
           \<Longrightarrow> Vector_inv v'"
proof -
  let ?xs = "elements v" and ?c = "Capacity v"
  have v: "v = vector_of ?xs ?c" using inv by (rule Vector_inv_normal)
  have le: "length ?xs \<le> ?c" and len: "length ?xs = size_m v"
    using inv by (simp_all add: Vector_inv_block)
  have ok: "relocates_ok b T ys" for b ys using nc nm by (simp add: relocates_ok_def)
  have f1: "block_fits T (2 * (length ?xs + 1))" using fits len by simp
  have fv: "block_fits T (length ?xs)" using f1 by (rule block_fits_mono) simp
  have eb: "Vector_inv v'" if r: "EmplaceBack T v (Inr x) = Return v' r" for r
  proof -
    let ?c1 = "if length ?xs = ?c then (if length ?xs = 0 then 1 else length ?xs * 2) else ?c"
    have "length ?xs < ?c \<or> relocates_ok (EmplaceBack_moves T) T ?xs" using ok by simp
    from EmplaceBack_Return [OF le this f1, of x]
    have "EmplaceBack T v (Inr x) = Return (vector_of (?xs @ [x]) ?c1) (length ?xs)"
      using v by simp
    moreover have "length (?xs @ [x]) \<le> ?c1" using le by auto
    ultimately show "Vector_inv v'" using r by (auto simp: vector_of_inv)
  qed
  then show "EmplaceBack T v (Inr x) = Return v' r \<Longrightarrow> Vector_inv v'" .
  from eb show "PushBack T v x = Return v' u \<Longrightarrow> Vector_inv v'"
    using nc by (auto simp: PushBack_def copy_construct_def discard_result_def
        split: outcome.splits)
  show "PopBack v = Return v' u \<Longrightarrow> Vector_inv v'"
  proof (cases "?xs = []")
    case True
    assume "PopBack v = Return v' u"
    then show ?thesis using True len inv by (simp add: PopBack_def)
  next
    case False
    assume "PopBack v = Return v' u"
    then have "v' = vector_of (butlast ?xs) ?c" using PopBack_Return [OF le False] v by simp
    then show ?thesis using le by (simp add: vector_of_inv)
  qed
  show "block_fits T n \<Longrightarrow> Reserve T v n = Return v' u \<Longrightarrow> Vector_inv v'"
  proof (cases "n \<le> ?c")
    case True
    assume "Reserve T v n = Return v' u"
    then show ?thesis using True inv by (simp add: Reserve_noop)
  next
    case False
    assume fn: "block_fits T n" and "Reserve T v n = Return v' u"
    then have "v' = vector_of ?xs n" using Reserve_grow_Return [OF le _ ok fn] False v by simp
    then show ?thesis using le False by (simp add: vector_of_inv)
  qed
  show "block_fits T n \<Longrightarrow> Resize T v n = Return v' u \<Longrightarrow> Vector_inv v'"
  proof (cases "length ?xs < n")
    case True
    assume fn: "block_fits T n" and "Resize T v n = Return v' u"
    then have "v' = vector_of (?xs @ replicate (n - length ?xs) d) (max ?c n)"
      using Resize_grow [OF le True dc ok fn] v by simp
    then show ?thesis using True by (simp add: vector_of_inv)
  next
    case False
    assume "Resize T v n = Return v' u"
    then have "v' = vector_of (take n ?xs) ?c" using Resize_shrink [OF le, of n T] False v by simp
    then show ?thesis using le by (simp add: vector_of_inv)
  qed
  show "Vector_inv w \<Longrightarrow> block_fits T (size_m w) \<Longrightarrow> Vector_copy_assign T v w = Return v' u
          \<Longrightarrow> Vector_inv v'"
  proof -
    assume w: "Vector_inv w" and fw: "block_fits T (size_m w)"
      and r: "Vector_copy_assign T v w = Return v' u"
    let ?ys = "elements w"
    have w': "w = vector_of ?ys (Capacity w)" using w by (rule Vector_inv_normal)
    have lw: "length ?ys \<le> Capacity w" and fw': "block_fits T (length ?ys)"
      using w fw by (simp_all add: Vector_inv_block)
    have "Vector_copy_assign T (vector_of ?xs ?c) (vector_of ?ys (Capacity w))
            = Return (vector_of ?ys (if ?c < length ?ys then length ?ys else ?c)) ()"
      by (rule Vector_copy_assign_Return [OF le lw _ fw']) (simp add: nc nca)
    then have "v' = vector_of ?ys (if ?c < length ?ys then length ?ys else ?c)"
      using r v w' by simp
    then show "Vector_inv v'" by (simp add: vector_of_inv)
  qed
  show "Vector_inv w \<Longrightarrow> block_fits T (size_m w) \<Longrightarrow>
        Vector_move_assign T v w = Return (v', w') u \<Longrightarrow> Vector_inv v' \<and> Vector_inv w'"
  proof -
    assume w: "Vector_inv w" and fw: "block_fits T (size_m w)"
      and r: "Vector_move_assign T v w = Return (v', w') u"
    show "Vector_inv v' \<and> Vector_inv w'"
    proof (cases "size_m w \<le> ?c")
      case True
      then show ?thesis using r w inv by (simp add: Vector_move_assign_fits)
    next
      case False
      then have "Vector_move_assign T v w = Return (w, vector_of ?xs (size_m w)) ()"
        using Vector_move_assign_grows [OF inv _ ok fw] by simp
      then show ?thesis using r w le False by (auto simp: vector_of_inv)
    qed
  qed
  show "Vector_inv w \<Longrightarrow> Swap v w = (v', w') \<Longrightarrow> Vector_inv v' \<and> Vector_inv w'"
    using inv by (simp add: Swap_eq)
  show "Vector_copy T v = Return u' v' \<Longrightarrow> Vector_inv v'"
  proof -
    assume "Vector_copy T v = Return u' v'"
    then have "v' = vector_of ?xs (length ?xs)" using Vector_copy_Return [OF le ok fv] v by simp
    then show ?thesis by (simp add: vector_of_inv)
  qed
  show "Vector_move v = (v', w') \<Longrightarrow> Vector_inv v' \<and> Vector_inv w'"
    using inv by (auto simp: Vector_move_eq Vector_default_vector_of vector_of_inv)
  show "pos \<le> size_m v \<Longrightarrow> size_m v < 2 ^ 31 \<Longrightarrow> Emplace T v pos (Inr x) = Return v' r
          \<Longrightarrow> Vector_inv v'"
  proof -
    assume p: "pos \<le> size_m v" and s: "size_m v < 2 ^ 31"
      and r: "Emplace T v pos (Inr x) = Return v' r"
    consider (full) "size_m v = ?c" | (spare) "size_m v \<noteq> 0" "size_m v < ?c"
      | (empty) "size_m v = 0" "0 < ?c"
      using le len by linarith
    then show "Vector_inv v'"
    proof cases
      case full
      let ?x1 = "take pos ?xs" and ?x2 = "drop pos ?xs"
      let ?c1 = "if length (?x1 @ ?x2) = 0 then 1 else length (?x1 @ ?x2) * 2"
      have l1: "length ?x1 = pos" using p len by simp
      have f2: "block_fits T (2 * (length (?x1 @ ?x2) + 1))" using f1 by simp
      have "length (?x1 @ ?x2) < 2 ^ 31" using s len by simp
      from Emplace_grow [OF ok this f2, where x = x]
      have "Emplace T v pos (Inr x) = Return (vector_of (?x1 @ x # ?x2) ?c1) pos"
        using v full len l1 by simp
      moreover have "length (?x1 @ x # ?x2) \<le> ?c1"
      proof -
        have e: "length (?x1 @ x # ?x2) = Suc (length (?x1 @ ?x2))" by simp
        show ?thesis unfolding e by (rule grow_bound)
      qed
      ultimately show ?thesis using r by (auto simp: vector_of_inv)
    next
      case spare
      then show ?thesis using r Emplace_in_place_Undefined [OF inv spare, of T pos x] by simp
    next
      case empty
      then have "?xs = []" "pos = 0" using len p by simp_all
      then have "Emplace T v pos (Inr x) = Return (vector_of [x] ?c) 0"
        using Emplace_empty_in_place [OF empty(2), of T x] v by simp
      then show ?thesis using r empty(2) by (auto simp: vector_of_inv)
    qed
  qed
  show "pos < size_m v \<Longrightarrow> size_m v < 2 ^ 31 \<Longrightarrow> Erase T v pos = Return v' r
          \<Longrightarrow> Vector_inv v'"
  proof -
    assume p: "pos < size_m v" and s: "size_m v < 2 ^ 31" and r: "Erase T v pos = Return v' r"
    have "Erase T (vector_of ?xs ?c) pos
            = Return (vector_of (take pos ?xs @ drop (Suc pos) ?xs) ?c) pos"
      by (rule Erase_Return [OF le]) (use p s len nma in simp_all)
    then have "v' = vector_of (take pos ?xs @ drop (Suc pos) ?xs) ?c" using r v by simp
    moreover have "length (take pos ?xs @ drop (Suc pos) ?xs) \<le> ?c" using le by simp
    ultimately show "Vector_inv v'" by (simp add: vector_of_inv)
  qed
qed

text \<open>
  Claim C7 says that every state reachable from the default-constructed vector satisfies the
  invariant. Two calls of \<^verbatim>\<open>EmplaceBack\<close> build \<open>[1, 13]\<close> with capacity 2. In the
  following \<^verbatim>\<open>Emplace\<close> at position 1 the move of \<open>13\<close> throws; the handler destroys the
  relocated prefix, swallows the exception, and control runs on: the old elements are
  destroyed, the size becomes 3 and the new block is installed, with one object in it. The
  call returns normally.
\<close>

theorem invariant_broken_example:
  "EmplaceBack throwing_type Vector_default (Inr 1) = Return (vector_of [1] 1) 0 \<and>
   EmplaceBack throwing_type (vector_of [1] 1) (Inr 13) = Return (vector_of [1, 13] 2) 1 \<and>
   Emplace throwing_type (vector_of [1, 13] 2) 1 (Inr 9)
     = Return \<lparr>data_m = \<lparr>buffer_m = [None, Some 9, None, None], capacity_m = 4\<rparr>, size_m = 3\<rparr> 1 \<and>
   \<not> Vector_inv \<lparr>data_m = \<lparr>buffer_m = [None, Some (9 :: nat), None, None], capacity_m = 4\<rparr>,
                  size_m = 3\<rparr>"
proof -
  have ok: "relocates_ok (EmplaceBack_moves throwing_type) throwing_type [1]"
    by (simp add: relocates_ok_def throwing_type_def)
  have f: "block_fits throwing_type 1" "block_fits throwing_type (length [1 :: nat] * 2)"
      "block_fits throwing_type 4"
    by (simp_all add: block_fits_def throwing_type_def)
  have 1: "EmplaceBack throwing_type Vector_default (Inr 1) = Return (vector_of [1] 1) 0"
    unfolding Vector_default_vector_of by (rule EmplaceBack_grow_empty [OF f(1)])
  have 2: "EmplaceBack throwing_type (vector_of [1] 1) (Inr 13) = Return (vector_of [1, 13] 2) 1"
    using EmplaceBack_grow_nonempty [OF ok _ f(2), of 13] by simp
  have sm: "size_t_mul (Suc (Suc 0)) (Suc (Suc 0)) = 4" by (simp add: size_t_mul_def)
  have al: "Allocate throwing_type 4 = [None, None, None, None]"
    using Allocate_replicate [OF f(3)] by (simp add: numeral_eq_Suc)
  have 3: "Emplace throwing_type (vector_of [1, 13] 2) 1 (Inr 9)
     = Return \<lparr>data_m = \<lparr>buffer_m = [None, Some 9, None, None], capacity_m = 4\<rparr>, size_m = 3\<rparr> 1"
    by (simp add: Emplace_def RawMemory_new_def sm al vector_of_def block_of_def Capacity_def
        numeral_2_eq_2)
      (simp add: Emplace_relocate_def Emplace_moves_def throwing_type_def to_int_def
        size_minus_def catch_std_exception_def RawMemory_move_assign_eq
        vector_of_def block_of_def Capacity_def construct_at_def object_at_def Destroy_def uninitialized_move_n_def
        uninitialized_copy_n_def with_block_def Let_def numeral_2_eq_2)
  have 4: "\<not> Vector_inv \<lparr>data_m = \<lparr>buffer_m = [None, Some (9 :: nat), None, None], capacity_m = 4\<rparr>,
                  size_m = 3\<rparr>"
    by (simp add: Vector_inv_def block_of_def Capacity_def numeral_3_eq_3)
  show ?thesis using 1 2 3 4 by simp
qed

section \<open>Failure during the relocation of an append or an insertion\<close>

text \<open>
  Claim C1 says that after a construction failure during the relocation step of an append,
  an insertion or \<^verbatim>\<open>Reserve\<close> the failure reaches the caller and the size, the capacity and
  the element sequence are those before the call. Take the copyable type whose copy and
  move may both throw, and the vector \<open>[1, 13]\<close> with capacity 2. \<^verbatim>\<open>Reserve\<close> relocates by
  copy and behaves as claimed. \<^verbatim>\<open>PushBack\<close> relocates by move, because \<^verbatim>\<open>EmplaceBack\<close>
  tests \<^verbatim>\<open>!is_nothrow_copy_constructible_v\<close> where \<^verbatim>\<open>Reserve\<close> tests
  \<^verbatim>\<open>!is_copy_constructible_v\<close>: when the move of \<open>13\<close> throws, the element \<open>1\<close> has been
  moved from, and the caller finds \<open>[0, 13]\<close>. \<^verbatim>\<open>Insert\<close> at position 0 relocates the
  elements in a \<^verbatim>\<open>try\<close> block whose handler does not throw again: the call returns
  normally, with size 3 and a new block that holds the new element only.
\<close>

theorem relocation_failure_example:
  "Reserve throwing_type (vector_of [1, 13] 2) 4 = Throw (vector_of [1, 13] 2) StdException \<and>
   PushBack throwing_type (vector_of [1, 13] 2) 5 = Throw (vector_of [0, 13] 2) StdException \<and>
   elements (vector_of [1, 13 :: nat] 2) = [1, 13] \<and>
   elements (vector_of [0, 13 :: nat] 2) = [0, 13] \<and>
   Insert throwing_type (vector_of [1, 13] 2) 0 5
     = Return \<lparr>data_m = \<lparr>buffer_m = [Some 5, None, None, None], capacity_m = 4\<rparr>, size_m = 3\<rparr> 0"
proof -
  have m: "Reserve_moves throwing_type = False" "EmplaceBack_moves throwing_type = True"
    by (simp_all add: Reserve_moves_def EmplaceBack_moves_def throwing_type_def)
  have f: "block_fits throwing_type 4"
    and f': "block_fits throwing_type (length ([1] @ 13 # [] :: nat list) * 2)"
    by (simp_all add: block_fits_def throwing_type_def)
  have ok: "relocates_ok b throwing_type [1]" for b
    by (simp add: relocates_ok_def throwing_type_def)
  have bad: "move_throws throwing_type 13 = Some StdException"
      "copy_throws throwing_type 13 = Some StdException"
    and mf: "moved_from throwing_type 1 = 0"
    and c5: "copy_construct throwing_type 5 = Inr 5"
    by (simp_all add: throwing_type_def copy_construct_def)
  have badR: "(if Reserve_moves throwing_type then move_throws throwing_type 13
               else copy_throws throwing_type 13) = Some StdException"
    and badE: "(if EmplaceBack_moves throwing_type then move_throws throwing_type 13
                else copy_throws throwing_type 13) = Some StdException"
    using m bad by simp_all
  have "Reserve throwing_type (vector_of ([1] @ 13 # []) 2) 4
          = Throw (vector_of ((if Reserve_moves throwing_type
                               then map (moved_from throwing_type) [1] else [1]) @ 13 # []) 2)
                  StdException"
    by (rule Reserve_grow_Throw [OF _ _ ok badR f]) simp_all
  then have r: "Reserve throwing_type (vector_of [1, 13] 2) 4
             = Throw (vector_of [1, 13] 2) StdException"
    using m by simp
  have "EmplaceBack throwing_type (vector_of ([1] @ 13 # []) (length ([1] @ 13 # [] :: nat list)))
            (Inr 5)
          = Throw (vector_of ((if EmplaceBack_moves throwing_type
                               then map (moved_from throwing_type) [1] else [1]) @ 13 # [])
                     (length ([1] @ 13 # [] :: nat list))) StdException"
    by (rule EmplaceBack_grow_Throw [OF refl ok badE f'])
  then have "EmplaceBack throwing_type (vector_of [1, 13] 2) (Inr 5)
             = Throw (vector_of [0, 13] 2) StdException"
    using m mf by (simp add: numeral_2_eq_2)
  then have p: "PushBack throwing_type (vector_of [1, 13] 2) 5
             = Throw (vector_of [0, 13] 2) StdException"
    by (simp add: PushBack_def c5 discard_result_def)
  have sm: "size_t_mul (Suc (Suc 0)) (Suc (Suc 0)) = 4" by (simp add: size_t_mul_def)
  have al: "Allocate throwing_type 4 = [None, None, None, None]"
    using Allocate_replicate [OF f] by (simp add: numeral_eq_Suc)
  have i: "Insert throwing_type (vector_of [1, 13] 2) 0 5
     = Return \<lparr>data_m = \<lparr>buffer_m = [Some 5, None, None, None], capacity_m = 4\<rparr>, size_m = 3\<rparr> 0"
    by (simp add: Insert_def c5 Emplace_def RawMemory_new_def sm al vector_of_def block_of_def
        Capacity_def numeral_2_eq_2)
      (simp add: Emplace_relocate_def Emplace_moves_def throwing_type_def to_int_def
        size_minus_def catch_std_exception_def RawMemory_move_assign_eq
        vector_of_def block_of_def Capacity_def construct_at_def object_at_def Destroy_def
        uninitialized_move_n_def uninitialized_copy_n_def with_block_def Let_def numeral_2_eq_2)
  show ?thesis using r p i by (simp add: vector_of_inv)
qed

end
